theory Spec2Isabelle
  imports Complex_Main
begin

section \<open>One-dimensional finite elements: the \<open>fem\<close> routine of Lecture 13\<close>

text \<open>
  The notebook defines \<open>mapping\<close>, \<open>mapping_J\<close>, \<open>lagrange_basis\<close>,
  \<open>lagrange_basis_derivative\<close> and the driver \<open>fem\<close>. Python integers are
  modelled as \<open>int\<close>, numpy's float arrays as lists of \<open>real\<close> in exact arithmetic,
  and every exception as a value of \<open>error\<close>. Where a property turns on the rounding of
  float64, the operation is modelled with its rounding (\<open>fl64\<close>, \<open>linspace_f64\<close>,
  \<open>mapping_J_f64\<close>).

  numpy does not raise on a float division by zero or on the square root of a negative
  number: it carries on with \<open>inf\<close> or \<open>nan\<close>. The type \<open>real\<close> has no such
  values, so the model stops there with \<open>NonFinite\<close>.
\<close>

text \<open>An AssertionError carries the text of the assertion that failed.\<close>

datatype error = AssertionError string | ValueError | IndexError | LinAlgError | NonFinite

definition bind_err :: "error + 'a \<Rightarrow> ('a \<Rightarrow> error + 'b) \<Rightarrow> error + 'b" where
  "bind_err m f = (case m of Inl e \<Rightarrow> Inl e | Inr x \<Rightarrow> f x)"

text \<open>A list comprehension whose elements may fail: the first failure is the result.\<close>

fun sequence_err :: "(error + 'a) list \<Rightarrow> error + 'a list" where
  "sequence_err [] = Inr []"
| "sequence_err (m # ms) =
     bind_err m (\<lambda>x. bind_err (sequence_err ms) (\<lambda>xs. Inr (x # xs)))"

definition fdiv :: "real \<Rightarrow> real \<Rightarrow> error + real" where
  "fdiv x y = (if y = 0 then Inl NonFinite else Inr (x / y))"

subsection \<open>numpy helpers\<close>

text \<open>
  \<open>numpy.linspace(start, stop, num)\<close> with the endpoint included: a negative \<open>num\<close>
  raises ValueError; otherwise sample \<open>i\<close> is \<open>i * step + start\<close> with
  \<open>step = (stop - start) / (num - 1)\<close> (for \<open>num = 1\<close> the only sample is \<open>start\<close>),
  and for \<open>num > 1\<close> the last sample is overwritten by \<open>stop\<close>. The arithmetic is
  exact here; \<open>linspace_f64\<close> below is the same computation with each operation
  rounded.
\<close>

definition linspace :: "real \<Rightarrow> real \<Rightarrow> int \<Rightarrow> error + real list" where
  "linspace start stop num =
     (if num < 0 then Inl ValueError
      else
        let n = nat num;
            dv = n - 1;
            delta = stop - start;
            y = map (\<lambda>i. (if 0 < dv then real i * (delta / real dv) else real i * delta) + start)
                  [0..<n]
        in Inr (if 1 < n then y[n - 1 := stop] else y))"

text \<open>
  An index into an axis of length \<open>n\<close>: negative indices count from the end, anything
  outside \<open>[-n, n)\<close> raises IndexError.
\<close>

definition py_index :: "nat \<Rightarrow> int \<Rightarrow> error + nat" where
  "py_index n i =
     (if 0 \<le> i \<and> i < int n then Inr (nat i)
      else if - int n \<le> i \<and> i < 0 then Inr (nat (int n + i))
      else Inl IndexError)"

text \<open>
  \<open>row[idx] = vals\<close> for an index array \<open>idx\<close>: the values are stored one index after
  the other; arrays of different lengths do not broadcast (ValueError).
\<close>

fun scatter_assign :: "'a list \<Rightarrow> int list \<Rightarrow> 'a list \<Rightarrow> error + 'a list" where
  "scatter_assign row [] [] = Inr row"
| "scatter_assign row (p # ps) (v # vs) =
     bind_err (py_index (length row) p) (\<lambda>i. scatter_assign (row[i := v]) ps vs)"
| "scatter_assign row _ _ = Inl ValueError"

text \<open>\<open>zeros(shape)\<close> raises ValueError on a negative dimension.\<close>

definition zeros_check :: "int list \<Rightarrow> error + unit" where
  "zeros_check shape = (if list_ex (\<lambda>n. n < 0) shape then Inl ValueError else Inr ())"

text \<open>
  The three contractions of \<open>fem\<close>. In \<open>einsum\<close>'s implicit mode the indices that occur
  once are the output, in alphabetical order: \<open>'qi,qj,q'\<close> is the matrix
  \<open>sum_q B[q,i] C[q,j] w[q]\<close>, \<open>'qi,q,q'\<close> the vector \<open>sum_q B[q,i] g[q] w[q]\<close> and
  \<open>'q,q'\<close> the scalar \<open>sum_q x[q] w[q]\<close>. \<open>N\<close> is the extent of \<open>i\<close> and \<open>j\<close>.
\<close>

definition einsum_qi_qj_q :: "nat \<Rightarrow> real list list \<Rightarrow> real list list \<Rightarrow> real list \<Rightarrow> real list list" where
  "einsum_qi_qj_q N B C w =
     map (\<lambda>i. map (\<lambda>j. \<Sum>q\<leftarrow>[0..<length w]. B ! q ! i * C ! q ! j * w ! q) [0..<N]) [0..<N]"

definition einsum_qi_q_q :: "nat \<Rightarrow> real list list \<Rightarrow> real list \<Rightarrow> real list \<Rightarrow> real list" where
  "einsum_qi_q_q N B g w = map (\<lambda>i. \<Sum>q\<leftarrow>[0..<length w]. B ! q ! i * g ! q * w ! q) [0..<N]"

definition einsum_q_q :: "real list \<Rightarrow> real list \<Rightarrow> real" where
  "einsum_q_q x w = (\<Sum>q\<leftarrow>[0..<length w]. x ! q * w ! q)"

text \<open>\<open>A.dot(u)\<close> for a matrix given by its rows.\<close>

definition mat_vec :: "real list list \<Rightarrow> real list \<Rightarrow> real list" where
  "mat_vec A u = map (\<lambda>row. \<Sum>i\<leftarrow>[0..<length u]. row ! i * u ! i) A"

text \<open>\<open>a.max()\<close> of an integer array, given flattened: ValueError on a zero-size array.\<close>

fun array_max :: "int list \<Rightarrow> error + int" where
  "array_max [] = Inl ValueError"
| "array_max (x # xs) = Inr (fold max xs x)"

subsection \<open>The numbering of the degrees of freedom\<close>

text \<open>\<open>N = M*degree+1\<close>.\<close>

definition dof_count :: "int \<Rightarrow> int \<Rightarrow> int" where
  "dof_count M degree = M * degree + 1"

text \<open>
  \<open>P = zeros((M,degree+1), dtype=int)\<close> followed by the loop
  \<open>for k in range(M): start = k*degree; P[k] = array(range(start,start+degree+1))\<close>.
\<close>

definition dof_row :: "int \<Rightarrow> nat \<Rightarrow> int list" where
  "dof_row degree k = (let start = int k * degree in [start..start + degree])"

definition dof_numbering :: "int \<Rightarrow> int \<Rightarrow> int list list" where
  "dof_numbering M degree =
     fold (\<lambda>k P. P[k := dof_row degree k]) [0..<nat M]
       (replicate (nat M) (replicate (nat (degree + 1)) 0))"

subsection \<open>Element maps and the reference basis\<close>

text \<open>
  \<open>mapping(q, i)\<close> returns \<open>lambda x: q[i]+x*(q[i+1]-q[i])\<close> and \<open>mapping_J(q,i)\<close>
  returns \<open>q[i+1]-q[i]\<close>, both after \<open>assert i < len(q)-1\<close> and \<open>assert i >= 0\<close>.
\<close>

definition mapping :: "real list \<Rightarrow> int \<Rightarrow> error + (real \<Rightarrow> real)" where
  "mapping q i =
     (if \<not> i < int (length q) - 1 then Inl (AssertionError ''i < len(q)-1'')
      else if \<not> 0 \<le> i then Inl (AssertionError ''i >= 0'')
      else Inr (\<lambda>x. q ! nat i + x * (q ! (nat i + 1) - q ! nat i)))"

definition mapping_J :: "real list \<Rightarrow> int \<Rightarrow> error + real" where
  "mapping_J q i =
     (if \<not> i < int (length q) - 1 then Inl (AssertionError ''i < len(q)-1'')
      else if \<not> 0 \<le> i then Inl (AssertionError ''i >= 0'')
      else Inr (q ! (nat i + 1) - q ! nat i))"

text \<open>
  \<open>lagrange_basis(q, i)\<close> returns
  \<open>lambda x: prod([(x-q[j])/(q[i]-q[j]) for j in range(len(q)) if i!=j], axis=0)\<close>
  after \<open>assert i < len(q)\<close> and \<open>assert i >= 0\<close>. The returned function is modelled at
  one point \<open>x\<close>; \<open>fem\<close> applies it to the array of quadrature nodes, entry by entry.
\<close>

definition lagrange_basis :: "real list \<Rightarrow> int \<Rightarrow> error + (real \<Rightarrow> error + real)" where
  "lagrange_basis q i =
     (if \<not> i < int (length q) then Inl (AssertionError ''i < len(q)'')
      else if \<not> 0 \<le> i then Inl (AssertionError ''i >= 0'')
      else Inr (\<lambda>x.
        bind_err
          (sequence_err
             (map (\<lambda>j. fdiv (x - q ! j) (q ! nat i - q ! j))
                (filter (\<lambda>j. nat i \<noteq> j) [0..<length q])))
          (\<lambda>factors. Inr (prod_list factors))))"

text \<open>
  \<open>lagrange_basis_derivative(q,i)\<close> (with \<open>order=1\<close>, the only order \<open>fem\<close> asks for)
  builds the product above on a sympy symbol, differentiates it symbolically and turns
  the result into a numpy function. The model writes the derivative of the product out
  by the product rule; \<open>lagrange_basis_derivative_DERIV\<close> below proves that it is the
  derivative of \<open>lagrange_basis\<close>. (\<open>np_lambdify\<close> only gives a constant derivative
  the shape of its argument.) The expression is not finite when a denominator
  \<open>q[i]-q[j]\<close> is zero.
\<close>

definition lagrange_basis_derivative :: "real list \<Rightarrow> int \<Rightarrow> error + (real \<Rightarrow> error + real)" where
  "lagrange_basis_derivative q i =
     bind_err (lagrange_basis q i) (\<lambda>v. Inr (\<lambda>x.
       if list_ex (\<lambda>j. q ! nat i - q ! j = 0) (filter (\<lambda>j. nat i \<noteq> j) [0..<length q])
       then Inl NonFinite
       else Inr (\<Sum>k\<leftarrow>filter (\<lambda>k. nat i \<noteq> k) [0..<length q].
                  1 / (q ! nat i - q ! k)
                  * prod_list (map (\<lambda>j. (x - q ! j) / (q ! nat i - q ! j))
                      (filter (\<lambda>j. nat i \<noteq> j \<and> j \<noteq> k) [0..<length q])))))"

subsection \<open>The driver \<open>fem\<close>\<close>

text \<open>
  \<open>numpy.polynomial.legendre.leggauss\<close> is a parameter of the model: \<open>leggauss n\<close> is
  the pair of its nodes and weights. \<open>fem\<close> rescales them by \<open>q = (q+1)/2\<close> and
  \<open>w = w/2\<close>. numpy returns \<open>n\<close> nodes and \<open>n\<close> weights; arrays of another length would
  not fit the tables filled later (ValueError), which the model reports here.
\<close>

definition gauss_rule :: "(int \<Rightarrow> real list \<times> real list) \<Rightarrow> int \<Rightarrow> error + (real list \<times> real list)" where
  "gauss_rule leggauss n =
     (let (q, w) = leggauss n
      in if length q \<noteq> nat n \<or> length w \<noteq> nat n then Inl ValueError
         else Inr (map (\<lambda>x. (x + 1) / 2) q, map (\<lambda>x. x / 2) w))"

text \<open>
  \<open>[basis(ref_vertices,i)(q) for i in range(degree+1)]\<close>: row \<open>i\<close> holds basis function
  \<open>i\<close> at every quadrature node. \<open>fem\<close> stores the transposed table (\<open>Vq\<close>, \<open>Vprimeq\<close>)
  and only ever reads it transposed back (\<open>Vq.T\<close>, \<open>Vprimeq.T\<close>), so the model keeps the
  table as the comprehension builds it.
\<close>

definition basis_table ::
  "(real list \<Rightarrow> int \<Rightarrow> error + (real \<Rightarrow> error + real)) \<Rightarrow> real list \<Rightarrow> int \<Rightarrow> real list
     \<Rightarrow> error + real list list" where
  "basis_table basis ref_vertices degree q =
     sequence_err
       (map (\<lambda>i. bind_err (basis ref_vertices (int i)) (\<lambda>v. sequence_err (map v q)))
          [0..<nat (degree + 1)])"

text \<open>
  \<open>B[k,:,P[k]] = VT\<close> on a zero block \<open>B[k]\<close> of \<open>nq\<close> rows and \<open>N\<close> columns: row \<open>j\<close>
  receives \<open>VT[alpha][j]\<close> in column \<open>P[k][alpha]\<close>.
\<close>

definition element_table :: "nat \<Rightarrow> nat \<Rightarrow> int list \<Rightarrow> real list list \<Rightarrow> error + real list list" where
  "element_table nq N Pk VT =
     sequence_err
       (map (\<lambda>j. scatter_assign (replicate N 0) Pk (map (\<lambda>vs. vs ! j) VT)) [0..<nq])"

text \<open>
  The body of the loop \<open>for k in range(M)\<close> that fills block \<open>k\<close> of both tables:
  \<open>Bq[k,:,P[k]] = Vq.T\<close> and \<open>Bprimeq[k,:,P[k]] = Vprimeq.T/mapping_J(vertices,k)\<close>.
\<close>

definition element_block ::
  "nat \<Rightarrow> nat \<Rightarrow> real list \<Rightarrow> int list list \<Rightarrow> real list list \<Rightarrow> real list list \<Rightarrow> nat
     \<Rightarrow> error + (real list list \<times> real list list)" where
  "element_block nq N vertices P VqT VprimeqT k =
     bind_err (element_table nq N (P ! k) VqT) (\<lambda>Bk.
     bind_err (mapping_J vertices (int k)) (\<lambda>J.
     bind_err (sequence_err (map (\<lambda>vs. sequence_err (map (\<lambda>v. fdiv v J) vs)) VprimeqT))
       (\<lambda>VprimeqT_J.
     bind_err (element_table nq N (P ! k) VprimeqT_J) (\<lambda>Bprimek. Inr (Bk, Bprimek)))))"

record fem_data =
  P_table :: "int list list"
  Xq :: "real list"
  Bq :: "real list list"
  Bprimeq :: "real list list"
  JxWq :: "real list"
  stiffness_matrix :: "real list list"
  rhs :: "real list"

text \<open>
  \<open>fem\<close> up to the two \<open>einsum\<close> calls that assemble the stiffness matrix and the right
  hand side, before the boundary rows are overwritten.
\<close>

definition fem_assemble ::
  "int \<Rightarrow> (real \<Rightarrow> real) \<Rightarrow> int \<Rightarrow> real \<Rightarrow> real \<Rightarrow> (int \<Rightarrow> real list \<times> real list)
     \<Rightarrow> error + fem_data" where
  "fem_assemble M rhs_function degree a b leggauss =
     (if \<not> 0 < degree then Inl (AssertionError ''degree > 0'')
      else
        let n_quadrature_points = 2 * degree + 1;
            N = dof_count M degree
        in
        bind_err (linspace 0 1 (degree + 1)) (\<lambda>ref_vertices.
        bind_err (linspace a b (M + 1)) (\<lambda>vertices.
        bind_err (gauss_rule leggauss n_quadrature_points) (\<lambda>(q, w).
        bind_err (basis_table lagrange_basis ref_vertices degree q) (\<lambda>VqT.
        bind_err (basis_table lagrange_basis_derivative ref_vertices degree q) (\<lambda>VprimeqT.
        bind_err (zeros_check [M, n_quadrature_points, N]) (\<lambda>_.
        bind_err (zeros_check [M, degree + 1]) (\<lambda>_.
        let P = dof_numbering M degree in
        bind_err (array_max (concat P)) (\<lambda>Pmax.
        if \<not> Pmax = N - 1 then Inl (AssertionError ''P.max() == N-1'')
        else
        bind_err (sequence_err
          (map (\<lambda>k. bind_err (mapping vertices (int k)) (\<lambda>F. Inr (map F q))) [0..<nat M])) (\<lambda>Q.
        bind_err (sequence_err
          (map (\<lambda>k. bind_err (mapping_J vertices (int k)) (\<lambda>J. Inr (map (\<lambda>x. J * x) w)))
             [0..<nat M])) (\<lambda>JxW.
        bind_err (sequence_err
          (map (element_block (nat n_quadrature_points) (nat N) vertices P VqT VprimeqT)
             [0..<nat M])) (\<lambda>blocks.
        let Xq = concat Q;
            Bq = concat (map fst blocks);
            Bprimeq = concat (map snd blocks);
            JxWq = concat JxW
        in Inr \<lparr> P_table = P, Xq = Xq, Bq = Bq, Bprimeq = Bprimeq, JxWq = JxWq,
                 stiffness_matrix = einsum_qi_qj_q (nat N) Bprimeq Bprimeq JxWq,
                 rhs = einsum_qi_q_q (nat N) Bq (map rhs_function Xq) JxWq \<rparr>))))))))))))"

text \<open>
  The boundary conditions:
  \<open>stiffness_matrix[0,:] = stiffness_matrix[-1,:] = 0\<close>,
  \<open>stiffness_matrix[0,0] = stiffness_matrix[-1,-1] = 1\<close>,
  \<open>rhs[0] = exact_function(a)\<close> and \<open>rhs[-1] = exact_function(b)\<close>.
  A chained assignment stores into its targets from left to right.
\<close>

definition set_row :: "real list list \<Rightarrow> int \<Rightarrow> real \<Rightarrow> error + real list list" where
  "set_row A i c =
     bind_err (py_index (length A) i) (\<lambda>r. Inr (A[r := replicate (length (A ! r)) c]))"

definition set_entry :: "real list list \<Rightarrow> int \<Rightarrow> int \<Rightarrow> real \<Rightarrow> error + real list list" where
  "set_entry A i j c =
     bind_err (py_index (length A) i) (\<lambda>r.
     bind_err (py_index (length (A ! r)) j) (\<lambda>s. Inr (A[r := (A ! r)[s := c]])))"

definition set_item :: "real list \<Rightarrow> int \<Rightarrow> real \<Rightarrow> error + real list" where
  "set_item f i c = bind_err (py_index (length f) i) (\<lambda>r. Inr (f[r := c]))"

definition dirichlet_rows :: "real list list \<Rightarrow> error + real list list" where
  "dirichlet_rows A =
     bind_err (set_row A 0 0) (\<lambda>A1.
     bind_err (set_row A1 (- 1) 0) (\<lambda>A2.
     bind_err (set_entry A2 0 0 1) (\<lambda>A3.
     set_entry A3 (- 1) (- 1) 1)))"

definition dirichlet_values :: "real list \<Rightarrow> real \<Rightarrow> real \<Rightarrow> error + real list" where
  "dirichlet_values f ua ub = bind_err (set_item f 0 ua) (\<lambda>f1. set_item f1 (- 1) ub)"

definition fem_system ::
  "int \<Rightarrow> (real \<Rightarrow> real) \<Rightarrow> (real \<Rightarrow> real) \<Rightarrow> int \<Rightarrow> real \<Rightarrow> real
     \<Rightarrow> (int \<Rightarrow> real list \<times> real list) \<Rightarrow> error + fem_data" where
  "fem_system M exact_function rhs_function degree a b leggauss =
     bind_err (fem_assemble M rhs_function degree a b leggauss) (\<lambda>s.
     bind_err (dirichlet_rows (stiffness_matrix s)) (\<lambda>A.
     bind_err (dirichlet_values (rhs s) (exact_function a) (exact_function b)) (\<lambda>f.
     Inr (s\<lparr> stiffness_matrix := A, rhs := f \<rparr>))))"

text \<open>
  \<open>u = linalg.solve(stiffness_matrix, rhs)\<close>: the solver is a parameter of the model,
  \<open>None\<close> when numpy raises LinAlgError.
\<close>

definition fem_solution ::
  "int \<Rightarrow> (real \<Rightarrow> real) \<Rightarrow> (real \<Rightarrow> real) \<Rightarrow> int \<Rightarrow> real \<Rightarrow> real
     \<Rightarrow> (int \<Rightarrow> real list \<times> real list) \<Rightarrow> (real list list \<Rightarrow> real list \<Rightarrow> real list option)
     \<Rightarrow> error + (fem_data \<times> real list)" where
  "fem_solution M exact_function rhs_function degree a b leggauss solve =
     bind_err (fem_system M exact_function rhs_function degree a b leggauss) (\<lambda>s.
       case solve (stiffness_matrix s) (rhs s) of
         None \<Rightarrow> Inl LinAlgError
       | Some u \<Rightarrow> Inr (s, u))"

text \<open>
  \<open>error = sqrt(einsum('q,q', (Bq.dot(u)-exact_function(Xq))**2, JxWq))\<close>, the value
  \<open>fem\<close> returns.
\<close>

definition fem ::
  "int \<Rightarrow> (real \<Rightarrow> real) \<Rightarrow> (real \<Rightarrow> real) \<Rightarrow> int \<Rightarrow> real \<Rightarrow> real
     \<Rightarrow> (int \<Rightarrow> real list \<times> real list) \<Rightarrow> (real list list \<Rightarrow> real list \<Rightarrow> real list option)
     \<Rightarrow> error + real" where
  "fem M exact_function rhs_function degree a b leggauss solve =
     bind_err (fem_solution M exact_function rhs_function degree a b leggauss solve) (\<lambda>(s, u).
       let e2 = einsum_q_q
                  (map (\<lambda>(x, y). (x - y)\<^sup>2) (zip (mat_vec (Bq s) u) (map exact_function (Xq s))))
                  (JxWq s)
       in if e2 < 0 then Inl NonFinite else Inr (sqrt e2))"

subsection \<open>Rounding to float64\<close>

text \<open>
  A float64 operation returns its exact result rounded to the nearest number with a
  significand of 53 bits, a tie going to the even significand; below \<open>2^-1022\<close> the
  spacing of the numbers stays \<open>2^-1074\<close>. \<open>fl64\<close> is this rounding. Overflow to
  infinity is not modelled: \<open>fl64\<close> is the float64 result only below \<open>2^1024\<close> in
  absolute value.
\<close>

definition round_half_even :: "real \<Rightarrow> int" where
  "round_half_even x =
     (let f = \<lfloor>x\<rfloor>; r = x - of_int f
      in if r < 1 / 2 then f else if 1 / 2 < r then f + 1 else if even f then f else f + 1)"

definition fl64 :: "real \<Rightarrow> real" where
  "fl64 x =
     (if x = 0 then 0
      else let e = max (\<lfloor>log 2 \<bar>x\<bar>\<rfloor> - 52) (- 1074)
           in of_int (round_half_even (x / 2 powr of_int e)) * 2 powr of_int e)"




subsection \<open>Concrete data for the examples\<close>

text \<open>
  The problem the notebook solves: \<open>exact_function(x) = sin(2*pi*x)\<close> and
  \<open>rhs_function(x) = sin(2*pi*x)*(4*pi**2)\<close>.
\<close>

definition exact_function :: "real \<Rightarrow> real" where
  "exact_function x = sin (2 * pi * x)"

definition rhs_function :: "real \<Rightarrow> real" where
  "rhs_function x = sin (2 * pi * x) * (4 * pi\<^sup>2)"

text \<open>A second problem: \<open>-u'' = 0\<close> with the solution \<open>u(x) = x\<close>.\<close>

definition exact_linear :: "real \<Rightarrow> real" where
  "exact_linear x = x"

definition rhs_zero :: "real \<Rightarrow> real" where
  "rhs_zero x = 0"

text \<open>
  The three-point Gauss-Legendre rule on \<open>[-1,1]\<close>, what \<open>leggauss(3)\<close> returns in exact
  arithmetic: the rule \<open>fem\<close> asks for at degree 1.
\<close>

definition leggauss_3 :: "int \<Rightarrow> real list \<times> real list" where
  "leggauss_3 n = ([- sqrt (3 / 5), 0, sqrt (3 / 5)], [5 / 9, 8 / 9, 5 / 9])"


text \<open>A solver that returns a given vector when it solves the system and fails otherwise.\<close>

definition candidate_solver :: "real list \<Rightarrow> real list list \<Rightarrow> real list \<Rightarrow> real list option" where
  "candidate_solver u A f = (if length u = length f \<and> mat_vec A u = f then Some u else None)"

subsection \<open>Quadrature of polynomials\<close>

text \<open>
  The sum \<open>sum_i w[i] * f(q[i])\<close> of a quadrature rule, a polynomial given by its
  coefficients (lowest degree first), its integral over \<open>[0,1]\<close> in closed form and the
  antiderivative the closed form comes from.
\<close>

definition quadrature_sum :: "real list \<Rightarrow> real list \<Rightarrow> (real \<Rightarrow> real) \<Rightarrow> real" where
  "quadrature_sum q w f = (\<Sum>i\<leftarrow>[0..<length q]. w ! i * f (q ! i))"

definition poly_eval :: "real list \<Rightarrow> real \<Rightarrow> real" where
  "poly_eval cs x = (\<Sum>k\<leftarrow>[0..<length cs]. cs ! k * x ^ k)"

definition poly_integral_01 :: "real list \<Rightarrow> real" where
  "poly_integral_01 cs = (\<Sum>k\<leftarrow>[0..<length cs]. cs ! k / real (k + 1))"

definition poly_antiderivative :: "real list \<Rightarrow> real \<Rightarrow> real" where
  "poly_antiderivative cs x = (\<Sum>k\<leftarrow>[0..<length cs]. cs ! k * x ^ (k + 1) / real (k + 1))"


subsection \<open>Closed forms used in the proofs\<close>

text \<open>The samples of \<open>linspace\<close>, the values of the Lagrange basis and of its derivative.\<close>

definition samples :: "real \<Rightarrow> real \<Rightarrow> nat \<Rightarrow> real list" where
  "samples s t n = map (\<lambda>i. s + real i * (t - s) / real (n - 1)) [0..<n]"

definition lagrange_value :: "real list \<Rightarrow> nat \<Rightarrow> real \<Rightarrow> real" where
  "lagrange_value q i x =
     prod_list (map (\<lambda>j. (x - q ! j) / (q ! i - q ! j)) (filter (\<lambda>j. i \<noteq> j) [0..<length q]))"

definition lagrange_slope :: "real list \<Rightarrow> nat \<Rightarrow> real \<Rightarrow> real" where
  "lagrange_slope q i x =
     (\<Sum>k\<leftarrow>filter (\<lambda>k. i \<noteq> k) [0..<length q].
        1 / (q ! i - q ! k)
        * prod_list (map (\<lambda>j. (x - q ! j) / (q ! i - q ! j))
            (filter (\<lambda>j. i \<noteq> j \<and> j \<noteq> k) [0..<length q])))"

text \<open>No other point of \<open>q\<close> coincides with point \<open>i\<close>.\<close>

definition separated :: "real list \<Rightarrow> nat \<Rightarrow> bool" where
  "separated q i \<longleftrightarrow> (\<forall>j < length q. j \<noteq> i \<longrightarrow> q ! i - q ! j \<noteq> 0)"

text \<open>Row \<open>i\<close> of the identity matrix of size \<open>N\<close>.\<close>

definition unit_row :: "nat \<Rightarrow> nat \<Rightarrow> real list" where
  "unit_row N i = (replicate N 0)[i := 1]"

section \<open>Properties of the numbering\<close>

lemma fold_list_update_range:
  "m \<le> length P \<Longrightarrow> fold (\<lambda>k P. P[k := f k]) [0..<m] P = map f [0..<m] @ drop m P"
proof (induction m)
  case 0
  then show ?case by simp
next
  case (Suc m)
  then have "m < length P" by simp
  then have "(map f [0..<m] @ drop m P)[m := f m] = map f [0..<m] @ f m # drop (Suc m) P"
    by (simp add: list_update_append upd_conv_take_nth_drop)
  with Suc show ?case by simp
qed

lemma dof_numbering_map: "dof_numbering M d = map (dof_row d) [0..<nat M]"
  by (simp add: dof_numbering_def fold_list_update_range)

lemma dof_row_length: "0 \<le> d \<Longrightarrow> length (dof_row d k) = nat d + 1"
  by (simp add: dof_row_def Let_def)

lemma dof_row_nth: "0 \<le> d \<Longrightarrow> i \<le> nat d \<Longrightarrow> dof_row d k ! i = int k * d + int i"
  by (simp add: dof_row_def Let_def)

lemma dof_row_eq:
  assumes "0 \<le> d"
  shows "dof_row d k = map (\<lambda>i. int k * d + int i) [0..<nat d + 1]"
proof (rule nth_equalityI)
  show "length (dof_row d k) = length (map (\<lambda>i. int k * d + int i) [0..<nat d + 1])"
    using assms by (simp add: dof_row_length)
next
  fix i assume "i < length (dof_row d k)"
  then have i: "i < nat d + 1" using assms by (simp add: dof_row_length)
  then have "map (\<lambda>i. int k * d + int i) [0..<nat d + 1] ! i = int k * d + int i"
    by (simp only: nth_map length_upt nth_upt diff_zero add_0)
  with i assms show "dof_row d k ! i = map (\<lambda>i. int k * d + int i) [0..<nat d + 1] ! i"
    by (simp add: dof_row_nth)
qed

lemma array_max_Max: "xs \<noteq> [] \<Longrightarrow> array_max xs = Inr (Max (set xs))"
  by (cases xs) (simp_all add: Max.set_eq_fold [symmetric])

lemma dof_row_set: "0 \<le> d \<Longrightarrow> set (dof_row d k) = {int k * d .. int k * d + d}"
  by (simp add: dof_row_def Let_def)

lemma dof_numbering_entry_bounds:
  assumes "1 \<le> M" "0 \<le> d" "x \<in> set (concat (dof_numbering M d))"
  shows "0 \<le> x \<and> x \<le> M * d"
proof -
  from assms obtain k where k: "k < nat M" and x: "int k * d \<le> x" "x \<le> int k * d + d"
    by (auto simp: dof_numbering_map dof_row_set)
  from k have "int k + 1 \<le> M" by simp
  then have "(int k + 1) * d \<le> M * d" using assms by (intro mult_right_mono) simp_all
  then have "int k * d + d \<le> M * d" by (simp add: algebra_simps)
  moreover have "0 \<le> int k * d" using assms by simp
  ultimately show ?thesis using x by linarith
qed

lemma dof_numbering_last_entry:
  assumes "1 \<le> M" "0 \<le> d"
  shows "M * d \<in> set (concat (dof_numbering M d))"
proof -
  have "int (nat M - 1) = M - 1" using assms by simp
  then have "M * d \<in> set (dof_row d (nat M - 1))"
    using assms by (simp add: dof_row_set algebra_simps)
  moreover have "nat M - 1 < nat M" using assms by simp
  ultimately show ?thesis by (auto simp: dof_numbering_map)
qed

lemma dof_numbering_max:
  assumes "1 \<le> M" "0 \<le> d"
  shows "array_max (concat (dof_numbering M d)) = Inr (M * d)"
proof -
  have ne: "concat (dof_numbering M d) \<noteq> []"
    using dof_numbering_last_entry [OF assms] by (metis empty_iff empty_set)
  have "Max (set (concat (dof_numbering M d))) = M * d"
    using dof_numbering_last_entry [OF assms] dof_numbering_entry_bounds [OF assms]
    by (intro Max_eqI) simp_all
  with ne show ?thesis by (simp add: array_max_Max)
qed

text \<open>
  C1. For \<open>M \<ge> 1\<close> elements of degree \<open>d \<ge> 1\<close> the table \<open>P\<close> has \<open>M\<close> rows, row \<open>k\<close> is
  \<open>[k*d, k*d+1, ..., k*d+d]\<close>, the last entry of a row is the first entry of the next
  row, and the largest entry of \<open>P\<close> is \<open>M*d = N-1\<close> for \<open>N = M*d+1\<close>, so that the
  assertion \<open>P.max() == N-1\<close> of \<open>fem\<close> holds.
\<close>

theorem dof_table_rows:
  assumes "1 \<le> M" and "1 \<le> d"
  shows "length (dof_numbering M d) = nat M
       \<and> (\<forall>k < nat M. dof_numbering M d ! k = map (\<lambda>i. int k * d + int i) [0..<nat d + 1])
       \<and> (\<forall>k. k + 1 < nat M \<longrightarrow> dof_numbering M d ! k ! nat d = dof_numbering M d ! (k + 1) ! 0)
       \<and> array_max (concat (dof_numbering M d)) = Inr (M * d)
       \<and> M * d = dof_count M d - 1"
proof -
  have d0: "0 \<le> d" using assms by simp
  have rows: "dof_numbering M d ! k = dof_row d k" if "k < nat M" for k
    using that by (simp add: dof_numbering_map)
  have "dof_numbering M d ! k ! nat d = dof_numbering M d ! (k + 1) ! 0" if "k + 1 < nat M" for k
  proof -
    have "dof_row d k ! nat d = int k * d + d" using d0 by (simp add: dof_row_nth)
    moreover have "dof_row d (k + 1) ! 0 = int k * d + d"
      using d0 by (simp add: dof_row_nth algebra_simps)
    ultimately show ?thesis using that by (simp add: rows)
  qed
  moreover have "\<forall>k < nat M. dof_numbering M d ! k = map (\<lambda>i. int k * d + int i) [0..<nat d + 1]"
    using rows dof_row_eq [OF d0] by simp
  moreover have "length (dof_numbering M d) = nat M" by (simp add: dof_numbering_map)
  ultimately show ?thesis
    using dof_numbering_max [OF assms(1) d0] by (simp add: dof_count_def)
qed

theorem dof_table_rows_witness:
  "(1::int) \<le> 3 \<and> (1::int) \<le> 2 \<and> dof_numbering 3 2 = [[0, 1, 2], [2, 3, 4], [4, 5, 6]]
   \<and> array_max (concat (dof_numbering 3 2)) = Inr 6 \<and> dof_count 3 2 = 7"
proof -
  have h: "(1::int) \<le> 3" "(1::int) \<le> 2" by simp_all
  have "dof_numbering 3 2 = [[0, 1, 2], [2, 3, 4], [4, 5, 6]]" by code_simp
  moreover have "dof_count 3 2 = 7" by (simp add: dof_count_def)
  ultimately show ?thesis using dof_table_rows [OF h] by simp
qed

section \<open>Basic facts about the model\<close>

lemma bind_err_Inr [simp]: "bind_err (Inr x) f = f x"
  by (simp add: bind_err_def)

lemma bind_err_Inl [simp]: "bind_err (Inl e) f = Inl e"
  by (simp add: bind_err_def)

lemma sequence_err_map_Inr:
  "(\<And>x. x \<in> set xs \<Longrightarrow> g x = Inr (f x)) \<Longrightarrow> sequence_err (map g xs) = Inr (map f xs)"
  by (induction xs) simp_all

lemma fdiv_Inr [simp]: "y \<noteq> 0 \<Longrightarrow> fdiv x y = Inr (x / y)"
  by (simp add: fdiv_def)

lemma fdiv_zero [simp]: "fdiv x 0 = Inl NonFinite"
  by (simp add: fdiv_def)

lemma linspace_samples:
  assumes "0 \<le> num"
  shows "linspace s t num = Inr (samples s t (nat num))"
proof -
  define n where "n = nat num"
  let ?y = "map (\<lambda>i. (if 0 < n - 1 then real i * ((t - s) / real (n - 1)) else real i * (t - s)) + s) [0..<n]"
  have eq: "(if 1 < n then ?y[n - 1 := t] else ?y) = samples s t n"
  proof (rule nth_equalityI)
    show "length (if 1 < n then ?y[n - 1 := t] else ?y) = length (samples s t n)"
      by (simp add: samples_def)
  next
    fix i assume "i < length (if 1 < n then ?y[n - 1 := t] else ?y)"
    then have i: "i < n" by (simp split: if_splits)
    show "(if 1 < n then ?y[n - 1 := t] else ?y) ! i = samples s t n ! i"
    proof (cases "1 < n")
      case True
      then have "real (n - 1) \<noteq> 0" by simp
      then have "s + real (n - 1) * (t - s) / real (n - 1) = t" by simp
      with True i show ?thesis
        by (cases "i = n - 1") (simp_all add: samples_def nth_list_update add.commute)
    next
      case False
      with i have "n = 1" "i = 0" by simp_all
      then show ?thesis by (simp add: samples_def)
    qed
  qed
  from assms have "\<not> num < 0" by simp
  then have "linspace s t num = Inr (if 1 < n then ?y[n - 1 := t] else ?y)"
    unfolding linspace_def Let_def n_def by (simp only: if_False)
  with eq show ?thesis by (simp only: n_def)
qed

lemma length_samples [simp]: "length (samples s t n) = n"
  by (simp add: samples_def)

lemma samples_nth: "i < n \<Longrightarrow> samples s t n ! i = s + real i * (t - s) / real (n - 1)"
  by (simp add: samples_def)

lemma samples_diff:
  assumes "i < n" "j < n"
  shows "samples s t n ! i - samples s t n ! j = (real i - real j) * ((t - s) / real (n - 1))"
  using assms by (simp add: samples_nth algebra_simps diff_divide_distrib)

lemma samples_diff_nonzero:
  assumes "i < n" "j < n" "i \<noteq> j" "s \<noteq> t"
  shows "samples s t n ! i - samples s t n ! j \<noteq> 0"
proof -
  from assms have "1 < n" by linarith
  then have "real (n - 1) \<noteq> 0" by simp
  moreover have "real i - real j \<noteq> 0" using assms by simp
  ultimately show ?thesis using assms by (simp add: samples_diff)
qed


lemma lagrange_basis_closed:
  assumes "i < length q" "separated q i"
  shows "lagrange_basis q (int i) = Inr (\<lambda>x. Inr (lagrange_value q i x))"
proof -
  have "sequence_err (map (\<lambda>j. fdiv (x - q ! j) (q ! i - q ! j)) (filter (\<lambda>j. i \<noteq> j) [0..<length q]))
        = Inr (map (\<lambda>j. (x - q ! j) / (q ! i - q ! j)) (filter (\<lambda>j. i \<noteq> j) [0..<length q]))" for x
    using assms(2) by (intro sequence_err_map_Inr) (auto simp: separated_def)
  with assms(1) show ?thesis
    by (simp add: lagrange_basis_def lagrange_value_def)
qed

lemma lagrange_basis_derivative_closed:
  assumes "i < length q" "separated q i"
  shows "lagrange_basis_derivative q (int i) = Inr (\<lambda>x. Inr (lagrange_slope q i x))"
proof -
  have "\<not> list_ex (\<lambda>j. q ! i - q ! j = 0) (filter (\<lambda>j. i \<noteq> j) [0..<length q])"
    using assms(2) by (auto simp: separated_def list_ex_iff)
  then show ?thesis
    using assms by (simp add: lagrange_basis_derivative_def lagrange_basis_closed lagrange_slope_def)
qed

lemma prod_list_DERIV:
  fixes f :: "nat \<Rightarrow> real \<Rightarrow> real"
  assumes "distinct js" "\<And>j. (f j has_field_derivative f' j) (at x)"
  shows "((\<lambda>x. prod_list (map (\<lambda>j. f j x) js)) has_field_derivative
           (\<Sum>k\<leftarrow>js. f' k * prod_list (map (\<lambda>j. f j x) (filter (\<lambda>j. j \<noteq> k) js)))) (at x)"
  using assms(1)
proof (induction js)
  case Nil
  then show ?case by simp
next
  case (Cons a js)
  then have a: "a \<notin> set js" and d: "distinct js" by simp_all
  let ?P = "\<lambda>x. prod_list (map (\<lambda>j. f j x) js)"
  let ?P' = "\<Sum>k\<leftarrow>js. f' k * prod_list (map (\<lambda>j. f j x) (filter (\<lambda>j. j \<noteq> k) js))"
  have step: "((\<lambda>x. f a x * ?P x) has_field_derivative (f' a * ?P x + ?P' * f a x)) (at x)"
    using DERIV_mult [OF assms(2) [of a] Cons.IH [OF d]] by simp
  have fa: "filter (\<lambda>j. j \<noteq> a) js = js" using a by (induction js) auto
  have "(\<Sum>k\<leftarrow>js. f' k * prod_list (map (\<lambda>j. f j x) (filter (\<lambda>j. j \<noteq> k) (a # js))))
        = (\<Sum>k\<leftarrow>js. f a x * (f' k * prod_list (map (\<lambda>j. f j x) (filter (\<lambda>j. j \<noteq> k) js))))"
    using a by (intro arg_cong [where f = sum_list] map_cong) auto
  also have "\<dots> = f a x * ?P'" by (simp add: sum_list_const_mult)
  finally have "(\<Sum>k\<leftarrow>a # js. f' k * prod_list (map (\<lambda>j. f j x) (filter (\<lambda>j. j \<noteq> k) (a # js))))
        = f' a * ?P x + ?P' * f a x"
    by (simp add: fa mult.commute)
  with step show ?case by simp
qed

lemma lagrange_slope_DERIV:
  "(lagrange_value q i has_field_derivative lagrange_slope q i x) (at x)"
proof -
  let ?js = "filter (\<lambda>j. i \<noteq> j) [0..<length q]"
  let ?f = "\<lambda>j x. (x - q ! j) / (q ! i - q ! j)"
  let ?f' = "\<lambda>j. 1 / (q ! i - q ! j)"
  have f: "(?f j has_field_derivative ?f' j) (at x)" for j
  proof -
    have "((\<lambda>x. (x - q ! j) * inverse (q ! i - q ! j)) has_field_derivative
            1 * inverse (q ! i - q ! j)) (at x)"
      by (intro DERIV_cmult_right) (auto intro!: derivative_eq_intros)
    then show ?thesis by (simp add: divide_inverse)
  qed
  have "distinct ?js" by simp
  from prod_list_DERIV [of ?js ?f ?f' x, OF this f]
  have "((\<lambda>x. prod_list (map (\<lambda>j. ?f j x) ?js)) has_field_derivative
           (\<Sum>k\<leftarrow>?js. ?f' k * prod_list (map (\<lambda>j. ?f j x) (filter (\<lambda>j. j \<noteq> k) ?js)))) (at x)" .
  moreover have "lagrange_value q i = (\<lambda>x. prod_list (map (\<lambda>j. ?f j x) ?js))"
    by (rule ext) (simp add: lagrange_value_def)
  moreover have "lagrange_slope q i x
        = (\<Sum>k\<leftarrow>?js. ?f' k * prod_list (map (\<lambda>j. ?f j x) (filter (\<lambda>j. j \<noteq> k) ?js)))"
    by (simp add: lagrange_slope_def conj_commute)
  ultimately show ?thesis by simp
qed

lemma lagrange_basis_derivative_DERIV:
  assumes "i < length q" "separated q i"
  shows "lagrange_basis q (int i) = Inr (\<lambda>x. Inr (lagrange_value q i x))"
    and "lagrange_basis_derivative q (int i) = Inr (\<lambda>x. Inr (lagrange_slope q i x))"
    and "(lagrange_value q i has_field_derivative lagrange_slope q i x) (at x)"
  using assms
  by (simp_all add: lagrange_basis_closed lagrange_basis_derivative_closed lagrange_slope_DERIV)

lemma prod_list_ones: "(\<And>x. x \<in> set xs \<Longrightarrow> f x = (1::real)) \<Longrightarrow> prod_list (map f xs) = 1"
  by (induction xs) simp_all

lemma lagrange_value_self:
  assumes "i < length q" "separated q i"
  shows "lagrange_value q i (q ! i) = 1"
  unfolding lagrange_value_def
proof (rule prod_list_ones)
  fix j assume "j \<in> set (filter (\<lambda>j. i \<noteq> j) [0..<length q])"
  then have "q ! i - q ! j \<noteq> 0" using assms(2) by (auto simp: separated_def)
  then show "(q ! i - q ! j) / (q ! i - q ! j) = 1" by simp
qed

lemma lagrange_value_other:
  assumes "j < length q" "i \<noteq> j"
  shows "lagrange_value q i (q ! j) = 0"
proof -
  have "j \<in> set (filter (\<lambda>m. i \<noteq> m) [0..<length q])" using assms by simp
  then have "(q ! j - q ! j) / (q ! i - q ! j)
          \<in> (\<lambda>m. (q ! j - q ! m) / (q ! i - q ! m)) ` set (filter (\<lambda>m. i \<noteq> m) [0..<length q])"
    by (rule imageI)
  then have "0 \<in> set (map (\<lambda>m. (q ! j - q ! m) / (q ! i - q ! m)) (filter (\<lambda>m. i \<noteq> m) [0..<length q]))"
    by simp
  then show ?thesis unfolding lagrange_value_def by (simp only: prod_list_zero_iff)
qed

lemma separated_samples: "s \<noteq> t \<Longrightarrow> i < n \<Longrightarrow> separated (samples s t n) i"
  using samples_diff_nonzero [of i n _ s t] by (auto simp: separated_def)

lemma ref_vertices_eq:
  assumes "1 \<le> d"
  shows "linspace 0 1 (d + 1) = Inr (samples 0 1 (Suc (nat d)))"
proof -
  have "nat (d + 1) = nat d + 1" using assms by simp
  with linspace_samples [of "d + 1" 0 1] assms show ?thesis by simp
qed

lemma vertices_eq:
  assumes "0 \<le> M"
  shows "linspace a b (M + 1) = Inr (samples a b (Suc (nat M)))"
proof -
  have "nat (M + 1) = nat M + 1" using assms by simp
  with linspace_samples [of "M + 1" a b] assms show ?thesis by simp
qed

lemma mapping_J_samples:
  assumes "k < n"
  shows "mapping_J (samples a b (Suc n)) (int k) = Inr ((b - a) / real n)"
proof -
  have "samples a b (Suc n) ! Suc k - samples a b (Suc n) ! k = (b - a) / real n"
    using assms samples_diff [of "Suc k" "Suc n" k a b] by simp
  with assms show ?thesis by (simp add: mapping_J_def)
qed

section \<open>The reference basis\<close>

text \<open>
  C3. For every degree \<open>d \<ge> 1\<close> and local indices \<open>\<alpha>\<close>, \<open>\<beta>\<close> in \<open>[0,d]\<close>: the
  reference vertices \<open>linspace(0,1,d+1)\<close> are the \<open>d+1\<close> points \<open>i/d\<close> (both endpoints
  included), and \<open>lagrange_basis(ref_vertices, \<alpha>)\<close> evaluates to exactly 1 at
  \<open>ref_vertices[\<alpha>]\<close> and to exactly 0 at \<open>ref_vertices[\<beta>]\<close> for \<open>\<beta> \<noteq> \<alpha>\<close>.
\<close>

theorem lagrange_property:
  assumes "1 \<le> d" and "0 \<le> \<alpha>" and "\<alpha> \<le> d" and "0 \<le> \<beta>" and "\<beta> \<le> d"
  shows "\<exists>ref_vertices v.
           linspace 0 1 (d + 1) = Inr ref_vertices
         \<and> length ref_vertices = nat d + 1
         \<and> (\<forall>i \<le> nat d. ref_vertices ! i = real i / real_of_int d)
         \<and> lagrange_basis ref_vertices \<alpha> = Inr v
         \<and> v (ref_vertices ! nat \<beta>) = Inr (if \<alpha> = \<beta> then 1 else 0)"
proof -
  let ?rv = "samples 0 1 (Suc (nat d))"
  let ?v = "\<lambda>x. Inr (lagrange_value ?rv (nat \<alpha>) x) :: error + real"
  have a: "nat \<alpha> < length ?rv" and b: "nat \<beta> < length ?rv" using assms by simp_all
  have sep: "separated ?rv (nat \<alpha>)" using a by (intro separated_samples) simp_all
  have "lagrange_basis ?rv (int (nat \<alpha>)) = Inr ?v" using a sep by (rule lagrange_basis_closed)
  then have basis: "lagrange_basis ?rv \<alpha> = Inr ?v" using assms by simp
  have val: "lagrange_value ?rv (nat \<alpha>) (?rv ! nat \<beta>) = (if \<alpha> = \<beta> then 1 else 0)"
  proof (cases "\<alpha> = \<beta>")
    case True
    then show ?thesis using lagrange_value_self [OF a sep] by simp
  next
    case False
    then have "nat \<alpha> \<noteq> nat \<beta>" using assms by simp
    then show ?thesis using False lagrange_value_other [OF b] by simp
  qed
  have pts: "\<forall>i \<le> nat d. ?rv ! i = real i / real_of_int d"
    using assms by (simp add: samples_nth)
  show ?thesis
    using ref_vertices_eq [OF assms(1)] basis val pts
    by (intro exI [of _ ?rv] exI [of _ ?v]) simp
qed

theorem lagrange_property_witness:
  "(1::int) \<le> 2 \<and> (0::int) \<le> 1 \<and> (1::int) \<le> 2 \<and> (0::int) \<le> 2 \<and> (2::int) \<le> 2
   \<and> (\<exists>ref_vertices v.
           linspace 0 1 3 = Inr ref_vertices
         \<and> ref_vertices = [0, 1 / 2, 1]
         \<and> lagrange_basis ref_vertices 1 = Inr v
         \<and> v (ref_vertices ! 2) = Inr 0)"
proof -
  have "linspace 0 1 3 = Inr [0, 1 / 2, 1]"
    by (simp add: linspace_def Let_def eval_nat_numeral)
  then show ?thesis
    using lagrange_property [of 2 1 2] by auto
qed

section \<open>The divisors\<close>




lemma fl64_0 [simp]: "fl64 0 = 0"
  by (simp add: fl64_def)









lemma fl64_grid:
  assumes "fl64 x = x"
  shows "\<exists>m. x = real_of_int m * 2 powr (- 1074)"
proof (cases "x = 0")
  case True
  then show ?thesis by (intro exI [of _ 0]) simp
next
  case False
  define e where "e = max (\<lfloor>log 2 \<bar>x\<bar>\<rfloor> - 52) (- 1074)"
  define r where "r = round_half_even (x / 2 powr of_int e)"
  have x: "x = of_int r * 2 powr of_int e"
    using assms False by (simp add: fl64_def Let_def e_def r_def)
  have "- 1074 \<le> e" by (simp add: e_def)
  then have "real_of_int e = real (nat (e + 1074)) + (- 1074)" by simp
  then have "(2::real) powr of_int e = 2 powr real (nat (e + 1074)) * 2 powr (- 1074)"
    by (simp only: powr_add)
  then have "(2::real) powr of_int e = 2 ^ nat (e + 1074) * 2 powr (- 1074)"
    by (simp only: powr_realpow [OF zero_less_numeral])
  then have "x = real_of_int (r * 2 ^ nat (e + 1074)) * 2 powr (- 1074)"
    using x by simp
  then show ?thesis ..
qed








section \<open>The quadrature rule\<close>


lemma poly_eval_sum: "poly_eval cs x = (\<Sum>k<length cs. cs ! k * x ^ k)"
  by (simp add: poly_eval_def interv_sum_list_conv_sum_set_nat atLeast0LessThan)


lemma poly_antiderivative_DERIV:
  "(poly_antiderivative cs has_field_derivative poly_eval cs x) (at x)"
proof -
  have "((\<lambda>x. cs ! k * x ^ Suc k / real (Suc k)) has_field_derivative cs ! k * x ^ k) (at x)" for k
    by (auto intro!: derivative_eq_intros simp del: power_Suc of_nat_Suc)
  then have "((\<lambda>x. \<Sum>k<length cs. cs ! k * x ^ Suc k / real (Suc k))
          has_field_derivative (\<Sum>k<length cs. cs ! k * x ^ k)) (at x)"
    by (intro DERIV_sum)
  moreover have "poly_antiderivative cs = (\<lambda>x. \<Sum>k<length cs. cs ! k * x ^ Suc k / real (Suc k))"
    by (rule ext) (simp add: poly_antiderivative_def interv_sum_list_conv_sum_set_nat atLeast0LessThan)
  ultimately show ?thesis by (simp add: poly_eval_sum)
qed

lemma poly_integral_01_antiderivative:
  "poly_integral_01 cs = poly_antiderivative cs 1 - poly_antiderivative cs 0"
  by (simp add: poly_integral_01_def poly_antiderivative_def)





text \<open>
  No table of float64 numbers is the three-point rule. A rule with three nodes that is
  exact up to degree 5 on \<open>[0,1]\<close> has its nodes at the roots of
  \<open>(x - 1/2) (5 (2x - 1)^2 - 3)\<close>, two of which are irrational, and a float64 number
  is an integer over a power of two.
\<close>

lemma four_power_mod_5: "(4::int) ^ k mod 5 = 1 \<or> (4::int) ^ k mod 5 = 4"
proof (induction k)
  case 0
  then show ?case by simp
next
  case (Suc k)
  have "(4::int) ^ Suc k mod 5 = (4 * (4 ^ k mod 5)) mod 5"
    by (simp add: mod_mult_right_eq)
  with Suc show ?case by auto
qed

lemma dyadic_not_gauss_node:
  "5 * (2 * (real_of_int m / 2 ^ k) - 1)\<^sup>2 \<noteq> 3"
proof
  assume eq: "5 * (2 * (real_of_int m / 2 ^ k) - 1)\<^sup>2 = 3"
  have "2 * (real_of_int m / 2 ^ k) - 1 = real_of_int (2 * m - 2 ^ k) / 2 ^ k"
    by (simp add: field_simps)
  then have "5 * (real_of_int (2 * m - 2 ^ k) / 2 ^ k)\<^sup>2 = 3" using eq by simp
  then have "5 * (real_of_int (2 * m - 2 ^ k))\<^sup>2 = 3 * (2 ^ k)\<^sup>2"
    by (simp add: field_simps)
  then have "real_of_int (5 * (2 * m - 2 ^ k)\<^sup>2) = real_of_int (3 * 4 ^ k)"
    by (simp add: power_mult [symmetric] power2_eq_square power_mult_distrib [symmetric])
  then have "5 * (2 * m - 2 ^ k)\<^sup>2 = (3 * 4 ^ k :: int)" by (simp only: of_int_eq_iff)
  then have "(3 * 4 ^ k :: int) mod 5 = 0" by (metis mod_mult_self1_is_0)
  moreover have "(3 * 4 ^ k :: int) mod 5 = (3 * (4 ^ k mod 5)) mod 5"
    by (simp add: mod_mult_right_eq)
  ultimately show False using four_power_mod_5 [of k] by auto
qed

lemma three_point_exact_nodes:
  fixes q0 q1 q2 w0 w1 w2 :: real
  assumes S0: "w0 + w1 + w2 = 1"
      and S1: "w0 * q0 + w1 * q1 + w2 * q2 = 1 / 2"
      and S2: "w0 * q0\<^sup>2 + w1 * q1\<^sup>2 + w2 * q2\<^sup>2 = 1 / 3"
      and S3: "w0 * q0 ^ 3 + w1 * q1 ^ 3 + w2 * q2 ^ 3 = 1 / 4"
      and S4: "w0 * q0 ^ 4 + w1 * q1 ^ 4 + w2 * q2 ^ 4 = 1 / 5"
      and S5: "w0 * q0 ^ 5 + w1 * q1 ^ 5 + w2 * q2 ^ 5 = 1 / 6"
  shows "5 * (2 * q0 - 1)\<^sup>2 = 3 \<or> 5 * (2 * q1 - 1)\<^sup>2 = 3 \<or> 5 * (2 * q2 - 1)\<^sup>2 = 3"
proof -
  define e1 where "e1 = q0 + q1 + q2"
  define e2 where "e2 = q0 * q1 + q0 * q2 + q1 * q2"
  define e3 where "e3 = q0 * q1 * q2"
  have om: "x ^ 3 - e1 * x\<^sup>2 + e2 * x - e3 = (x - q0) * (x - q1) * (x - q2)" for x
    unfolding e1_def e2_def e3_def by (simp add: algebra_simps power2_eq_square power3_eq_cube)
  have z: "q0 ^ 3 - e1 * q0\<^sup>2 + e2 * q0 - e3 = 0" "q1 ^ 3 - e1 * q1\<^sup>2 + e2 * q1 - e3 = 0"
    "q2 ^ 3 - e1 * q2\<^sup>2 + e2 * q2 - e3 = 0"
    by (simp_all only: om) simp_all
  have k0: "1 / 4 - e1 * (1 / 3) + e2 * (1 / 2) - e3 * 1 = 0"
  proof -
    have "w0 * (q0 ^ 3 - e1 * q0\<^sup>2 + e2 * q0 - e3) + w1 * (q1 ^ 3 - e1 * q1\<^sup>2 + e2 * q1 - e3)
          + w2 * (q2 ^ 3 - e1 * q2\<^sup>2 + e2 * q2 - e3) = 0"
      unfolding z by simp
    then have "(w0 * q0 ^ 3 + w1 * q1 ^ 3 + w2 * q2 ^ 3)
          - e1 * (w0 * q0\<^sup>2 + w1 * q1\<^sup>2 + w2 * q2\<^sup>2)
          + e2 * (w0 * q0 + w1 * q1 + w2 * q2) - e3 * (w0 + w1 + w2) = 0"
      by (simp add: algebra_simps)
    then show ?thesis by (simp only: S0 S1 S2 S3)
  qed
  have k1: "1 / 5 - e1 * (1 / 4) + e2 * (1 / 3) - e3 * (1 / 2) = 0"
  proof -
    have "w0 * q0 * (q0 ^ 3 - e1 * q0\<^sup>2 + e2 * q0 - e3) + w1 * q1 * (q1 ^ 3 - e1 * q1\<^sup>2 + e2 * q1 - e3)
          + w2 * q2 * (q2 ^ 3 - e1 * q2\<^sup>2 + e2 * q2 - e3) = 0"
      unfolding z by simp
    then have "(w0 * q0 ^ 4 + w1 * q1 ^ 4 + w2 * q2 ^ 4)
          - e1 * (w0 * q0 ^ 3 + w1 * q1 ^ 3 + w2 * q2 ^ 3)
          + e2 * (w0 * q0\<^sup>2 + w1 * q1\<^sup>2 + w2 * q2\<^sup>2) - e3 * (w0 * q0 + w1 * q1 + w2 * q2) = 0"
      by (simp add: algebra_simps power2_eq_square power3_eq_cube power4_eq_xxxx)
    then show ?thesis by (simp only: S1 S2 S3 S4)
  qed
  have k2: "1 / 6 - e1 * (1 / 5) + e2 * (1 / 4) - e3 * (1 / 3) = 0"
  proof -
    have "w0 * q0\<^sup>2 * (q0 ^ 3 - e1 * q0\<^sup>2 + e2 * q0 - e3) + w1 * q1\<^sup>2 * (q1 ^ 3 - e1 * q1\<^sup>2 + e2 * q1 - e3)
          + w2 * q2\<^sup>2 * (q2 ^ 3 - e1 * q2\<^sup>2 + e2 * q2 - e3) = 0"
      unfolding z by simp
    then have "(w0 * q0 ^ 5 + w1 * q1 ^ 5 + w2 * q2 ^ 5)
          - e1 * (w0 * q0 ^ 4 + w1 * q1 ^ 4 + w2 * q2 ^ 4)
          + e2 * (w0 * q0 ^ 3 + w1 * q1 ^ 3 + w2 * q2 ^ 3) - e3 * (w0 * q0\<^sup>2 + w1 * q1\<^sup>2 + w2 * q2\<^sup>2) = 0"
      by (simp add: algebra_simps power2_eq_square power3_eq_cube power4_eq_xxxx eval_nat_numeral)
    then show ?thesis by (simp only: S2 S3 S4 S5)
  qed
  from k0 k1 k2 have e: "e1 = 3 / 2" "e2 = 3 / 5" "e3 = 1 / 20" by simp_all
  have node: "(x - 1 / 2) * (5 * (2 * x - 1)\<^sup>2 - 3) = 20 * (x ^ 3 - e1 * x\<^sup>2 + e2 * x - e3)" for x
    unfolding e by (simp add: algebra_simps power2_eq_square power3_eq_cube)
  have n: "(q0 - 1 / 2) * (5 * (2 * q0 - 1)\<^sup>2 - 3) = 0" "(q1 - 1 / 2) * (5 * (2 * q1 - 1)\<^sup>2 - 3) = 0"
    "(q2 - 1 / 2) * (5 * (2 * q2 - 1)\<^sup>2 - 3) = 0"
    unfolding node z by simp_all
  show ?thesis
  proof (rule ccontr)
    assume "\<not> ?thesis"
    with n have "q0 = 1 / 2" "q1 = 1 / 2" "q2 = 1 / 2" by auto
    then have "e2 = 1 / 2 * (1 / 2) + 1 / 2 * (1 / 2) + 1 / 2 * (1 / 2)" by (simp only: e2_def)
    then have "e2 = 3 / 4" by simp
    with e(2) show False by simp
  qed
qed

lemma quadrature_sum_3:
  assumes "length q = 3"
  shows "quadrature_sum q w f = w ! 0 * f (q ! 0) + w ! 1 * f (q ! 1) + w ! 2 * f (q ! 2)"
  using assms by (simp add: quadrature_sum_def eval_nat_numeral)

lemma float_nodes_not_exact:
  assumes "length q = 3"
      and "\<And>i. i < 3 \<Longrightarrow> \<exists>m e. q ! i = real_of_int m / 2 ^ e"
  shows "\<exists>k<6. quadrature_sum q w (\<lambda>x. x ^ k) \<noteq> 1 / real (k + 1)"
proof (rule ccontr)
  assume "\<not> ?thesis"
  then have ex: "quadrature_sum q w (\<lambda>x. x ^ k) = 1 / real (k + 1)" if "k < 6" for k
    using that by blast
  note S = ex [unfolded quadrature_sum_3 [OF assms(1)]]
  have "5 * (2 * q ! 0 - 1)\<^sup>2 = 3 \<or> 5 * (2 * q ! 1 - 1)\<^sup>2 = 3 \<or> 5 * (2 * q ! 2 - 1)\<^sup>2 = 3"
    using S [of 0] S [of 1] S [of 2] S [of 3] S [of 4] S [of 5]
    by (intro three_point_exact_nodes [of "w ! 0" "w ! 1" "w ! 2"]) simp_all
  moreover have n: "5 * (2 * q ! i - 1)\<^sup>2 \<noteq> 3" if "i < 3" for i
  proof -
    from assms(2) [OF that] obtain m e where "q ! i = real_of_int m / 2 ^ e" by blast
    then show ?thesis using dyadic_not_gauss_node [of m e] by simp
  qed
  ultimately show False using n [of 0] n [of 1] n [of 2] by simp
qed




section \<open>Assembly succeeds on a valid mesh\<close>

lemma bind_err_eq_Inr: "bind_err m f = Inr y \<longleftrightarrow> (\<exists>x. m = Inr x \<and> f x = Inr y)"
  by (cases m) simp_all

lemma sequence_err_success:
  "(\<And>m. m \<in> set ms \<Longrightarrow> \<exists>x. m = Inr x) \<Longrightarrow> \<exists>xs. sequence_err ms = Inr xs"
proof (induction ms)
  case Nil
  then show ?case by simp
next
  case (Cons m ms)
  then obtain x xs where "m = Inr x" "sequence_err ms = Inr xs" by (metis list.set_intros)
  then show ?case by simp
qed

lemma py_index_nonneg: "0 \<le> i \<Longrightarrow> i < int n \<Longrightarrow> py_index n i = Inr (nat i)"
  by (simp add: py_index_def)

lemma py_index_last: "0 < n \<Longrightarrow> py_index n (- 1) = Inr (n - 1)"
  by (auto simp: py_index_def nat_diff_distrib)

lemma scatter_assign_success:
  "length ps = length vs \<Longrightarrow> (\<And>p. p \<in> set ps \<Longrightarrow> 0 \<le> p \<and> p < int (length row))
     \<Longrightarrow> \<exists>row'. scatter_assign row ps vs = Inr row'"
proof (induction row ps vs rule: scatter_assign.induct)
  case (2 row p ps v vs)
  then have "py_index (length row) p = Inr (nat p)" by (simp add: py_index_nonneg)
  moreover have "\<exists>row'. scatter_assign (row[nat p := v]) ps vs = Inr row'"
    using 2 by (intro "2.IH" [of "nat p"]) (simp_all add: py_index_nonneg)
  ultimately show ?case by simp
qed simp_all

lemma element_table_success:
  assumes "length Pk = length VT" "\<And>p. p \<in> set Pk \<Longrightarrow> 0 \<le> p \<and> p < int N"
  shows "\<exists>B. element_table nq N Pk VT = Inr B"
  unfolding element_table_def
proof (rule sequence_err_success)
  fix m assume "m \<in> set (map (\<lambda>j. scatter_assign (replicate N 0) Pk (map (\<lambda>vs. vs ! j) VT)) [0..<nq])"
  then obtain j where "m = scatter_assign (replicate N 0) Pk (map (\<lambda>vs. vs ! j) VT)" by auto
  then show "\<exists>x. m = Inr x"
    using assms scatter_assign_success [of Pk "map (\<lambda>vs. vs ! j) VT" "replicate N 0"] by simp
qed

lemma basis_table_lagrange:
  assumes "1 \<le> d"
  shows "basis_table lagrange_basis (samples 0 1 (Suc (nat d))) d q
         = Inr (map (\<lambda>i. map (lagrange_value (samples 0 1 (Suc (nat d))) i) q) [0..<nat (d + 1)])"
  unfolding basis_table_def
proof (rule sequence_err_map_Inr)
  fix i assume "i \<in> set [0..<nat (d + 1)]"
  then have i: "i < length (samples 0 1 (Suc (nat d)))" using assms by simp
  then have "separated (samples 0 1 (Suc (nat d))) i" by (intro separated_samples) simp_all
  with i have "lagrange_basis (samples 0 1 (Suc (nat d))) (int i)
      = Inr (\<lambda>x. Inr (lagrange_value (samples 0 1 (Suc (nat d))) i x))"
    by (rule lagrange_basis_closed)
  then show "bind_err (lagrange_basis (samples 0 1 (Suc (nat d))) (int i)) (\<lambda>v. sequence_err (map v q))
      = Inr (map (lagrange_value (samples 0 1 (Suc (nat d))) i) q)"
    by (simp add: sequence_err_map_Inr)
qed

lemma basis_table_lagrange_derivative:
  assumes "1 \<le> d"
  shows "basis_table lagrange_basis_derivative (samples 0 1 (Suc (nat d))) d q
         = Inr (map (\<lambda>i. map (lagrange_slope (samples 0 1 (Suc (nat d))) i) q) [0..<nat (d + 1)])"
  unfolding basis_table_def
proof (rule sequence_err_map_Inr)
  fix i assume "i \<in> set [0..<nat (d + 1)]"
  then have i: "i < length (samples 0 1 (Suc (nat d)))" using assms by simp
  then have "separated (samples 0 1 (Suc (nat d))) i" by (intro separated_samples) simp_all
  with i have "lagrange_basis_derivative (samples 0 1 (Suc (nat d))) (int i)
      = Inr (\<lambda>x. Inr (lagrange_slope (samples 0 1 (Suc (nat d))) i x))"
    by (rule lagrange_basis_derivative_closed)
  then show "bind_err (lagrange_basis_derivative (samples 0 1 (Suc (nat d))) (int i)) (\<lambda>v. sequence_err (map v q))
      = Inr (map (lagrange_slope (samples 0 1 (Suc (nat d))) i) q)"
    by (simp add: sequence_err_map_Inr)
qed

lemma mapping_samples:
  assumes "k < n"
  shows "\<exists>F. mapping (samples a b (Suc n)) (int k) = Inr F"
  using assms by (simp add: mapping_def)

lemma dof_row_in_range:
  assumes "1 \<le> M" "0 \<le> d" "k < nat M" "p \<in> set (dof_numbering M d ! k)"
  shows "0 \<le> p \<and> p < int (nat (dof_count M d))"
proof -
  have "dof_numbering M d ! k \<in> set (dof_numbering M d)"
    using assms(3) by (intro nth_mem) (simp add: dof_numbering_map)
  with assms(4) have "p \<in> set (concat (dof_numbering M d))" by auto
  from dof_numbering_entry_bounds [OF assms(1,2) this] have "0 \<le> p" "p \<le> M * d" by simp_all
  moreover have "0 \<le> M * d" using assms by simp
  ultimately show ?thesis by (simp add: dof_count_def)
qed

lemma element_block_success:
  assumes "1 \<le> M" "1 \<le> d" "a \<noteq> b" "k < nat M"
      and "length VqT = nat d + 1" "length VprimeqT = nat d + 1"
  shows "\<exists>blk. element_block nq (nat (dof_count M d)) (samples a b (Suc (nat M)))
                 (dof_numbering M d) VqT VprimeqT k = Inr blk"
proof -
  let ?N = "nat (dof_count M d)"
  let ?Pk = "dof_numbering M d ! k"
  let ?J = "(b - a) / real (nat M)"
  have d0: "0 \<le> d" using assms by simp
  have len: "length ?Pk = nat d + 1"
    using assms d0 by (simp add: dof_numbering_map dof_row_length)
  have range: "\<And>p. p \<in> set ?Pk \<Longrightarrow> 0 \<le> p \<and> p < int ?N"
    using dof_row_in_range [OF assms(1) d0 assms(4)] by simp
  obtain Bk where Bk: "element_table nq ?N ?Pk VqT = Inr Bk"
    using element_table_success [of ?Pk VqT ?N nq] len range assms by auto
  have J: "mapping_J (samples a b (Suc (nat M))) (int k) = Inr ?J"
    using assms(4) by (rule mapping_J_samples)
  have J0: "?J \<noteq> 0" using assms by simp
  define VJ where "VJ = map (map (\<lambda>v. v / ?J)) VprimeqT"
  have scaled: "sequence_err (map (\<lambda>vs. sequence_err (map (\<lambda>v. fdiv v ?J) vs)) VprimeqT) = Inr VJ"
    unfolding VJ_def using J0 by (intro sequence_err_map_Inr) simp_all
  have "length VJ = length ?Pk" using len assms by (simp add: VJ_def)
  then obtain Bpk where Bpk: "element_table nq ?N ?Pk VJ = Inr Bpk"
    using element_table_success [of ?Pk VJ ?N nq] range by auto
  show ?thesis
    unfolding element_block_def by (simp add: Bk J scaled Bpk)
qed

lemma fem_assemble_success:
  assumes "1 \<le> M" "1 \<le> d" "a \<noteq> b"
      and "length (fst (leggauss (2 * d + 1))) = nat (2 * d + 1)"
      and "length (snd (leggauss (2 * d + 1))) = nat (2 * d + 1)"
  shows "\<exists>s. fem_assemble M forcing d a b leggauss = Inr s"
proof -
  let ?rv = "samples 0 1 (Suc (nat d))"
  let ?vs = "samples a b (Suc (nat M))"
  define q where "q = map (\<lambda>x. (x + 1) / 2) (fst (leggauss (2 * d + 1)))"
  define w where "w = map (\<lambda>x. x / 2) (snd (leggauss (2 * d + 1)))"
  define VqT where "VqT = map (\<lambda>i. map (lagrange_value ?rv i) q) [0..<nat (d + 1)]"
  define VpT where "VpT = map (\<lambda>i. map (lagrange_slope ?rv i) q) [0..<nat (d + 1)]"
  define JxW where "JxW = map (\<lambda>k. map (\<lambda>x. (b - a) / real (nat M) * x) w) [0..<nat M]"
  let ?N = "dof_count M d"
  let ?P = "dof_numbering M d"
  have d0: "0 \<le> d" and M0: "0 \<le> M" using assms by simp_all
  have s1: "linspace 0 1 (d + 1) = Inr ?rv" using assms(2) by (rule ref_vertices_eq)
  have s2: "linspace a b (M + 1) = Inr ?vs" using M0 by (rule vertices_eq)
  have s3: "gauss_rule leggauss (2 * d + 1) = Inr (q, w)"
    using assms(4,5) by (simp add: gauss_rule_def case_prod_beta q_def w_def)
  have s4: "basis_table lagrange_basis ?rv d q = Inr VqT"
    unfolding VqT_def using assms(2) by (rule basis_table_lagrange)
  have s5: "basis_table lagrange_basis_derivative ?rv d q = Inr VpT"
    unfolding VpT_def using assms(2) by (rule basis_table_lagrange_derivative)
  have "0 \<le> ?N" using assms by (simp add: dof_count_def)
  then have s6: "zeros_check [M, 2 * d + 1, ?N] = Inr ()" "zeros_check [M, d + 1] = Inr ()"
    using assms by (simp_all add: zeros_check_def)
  have s7: "array_max (concat ?P) = Inr (?N - 1)"
    using dof_numbering_max [OF assms(1) d0] by (simp add: dof_count_def)
  have "\<exists>Q. sequence_err (map (\<lambda>k. bind_err (mapping ?vs (int k)) (\<lambda>F. Inr (map F q))) [0..<nat M]) = Inr Q"
  proof (rule sequence_err_success)
    fix m assume "m \<in> set (map (\<lambda>k. bind_err (mapping ?vs (int k)) (\<lambda>F. Inr (map F q))) [0..<nat M])"
    then obtain k where "k < nat M" and m: "m = bind_err (mapping ?vs (int k)) (\<lambda>F. Inr (map F q))"
      by auto
    from mapping_samples [OF this(1), of a b] obtain F where "mapping ?vs (int k) = Inr F" by blast
    with m show "\<exists>x. m = Inr x" by simp
  qed
  then obtain Q where s8: "sequence_err (map (\<lambda>k. bind_err (mapping ?vs (int k)) (\<lambda>F. Inr (map F q))) [0..<nat M]) = Inr Q" ..
  have s9: "sequence_err (map (\<lambda>k. bind_err (mapping_J ?vs (int k)) (\<lambda>J. Inr (map (\<lambda>x. J * x) w))) [0..<nat M])
      = Inr JxW"
    unfolding JxW_def by (intro sequence_err_map_Inr) (simp add: mapping_J_samples)
  have "\<exists>blocks. sequence_err (map (element_block (nat (2 * d + 1)) (nat ?N) ?vs ?P VqT VpT) [0..<nat M]) = Inr blocks"
  proof (rule sequence_err_success)
    fix m assume "m \<in> set (map (element_block (nat (2 * d + 1)) (nat ?N) ?vs ?P VqT VpT) [0..<nat M])"
    then obtain k where k: "k < nat M" and m: "m = element_block (nat (2 * d + 1)) (nat ?N) ?vs ?P VqT VpT k"
      by auto
    have "length VqT = nat d + 1" "length VpT = nat d + 1" using d0 by (simp_all add: VqT_def VpT_def)
    from element_block_success [OF assms(1,2,3) k this] m show "\<exists>x. m = Inr x" by simp
  qed
  then obtain blocks where s10: "sequence_err (map (element_block (nat (2 * d + 1)) (nat ?N) ?vs ?P VqT VpT) [0..<nat M]) = Inr blocks" ..
  have "0 < d" using assms by simp
  then show ?thesis
    unfolding fem_assemble_def Let_def
    by (simp add: s1 s2 s3 s4 s5 s6 s7 s8 s9 s10)
qed

lemma dof_numbering_empty: "M \<le> 0 \<Longrightarrow> dof_numbering M d = []"
  by (simp add: dof_numbering_map)

lemma zeros_check_Inr: "zeros_check (n # ns) = Inr u \<Longrightarrow> 0 \<le> n"
  by (simp add: zeros_check_def split: if_splits)

lemma fem_assemble_InrD:
  assumes "fem_assemble M forcing d a b leggauss = Inr s"
  shows "0 < d" and "1 \<le> M"
    and "stiffness_matrix s = einsum_qi_qj_q (nat (dof_count M d)) (Bprimeq s) (Bprimeq s) (JxWq s)"
    and "rhs s = einsum_qi_q_q (nat (dof_count M d)) (Bq s) (map forcing (Xq s)) (JxWq s)"
    and "P_table s = dof_numbering M d"
proof -
  show d: "0 < d" using assms by (simp add: fem_assemble_def split: if_splits)
  from assms d obtain Pmax Q JxW blocks u where
    z: "zeros_check [M, 2 * d + 1, dof_count M d] = Inr u"
    and m: "array_max (concat (dof_numbering M d)) = Inr Pmax"
    and s: "s = \<lparr> P_table = dof_numbering M d, Xq = concat Q, Bq = concat (map fst blocks),
                 Bprimeq = concat (map snd blocks), JxWq = concat JxW,
                 stiffness_matrix = einsum_qi_qj_q (nat (dof_count M d)) (concat (map snd blocks))
                    (concat (map snd blocks)) (concat JxW),
                 rhs = einsum_qi_q_q (nat (dof_count M d)) (concat (map fst blocks))
                    (map forcing (concat Q)) (concat JxW) \<rparr>"
    unfolding fem_assemble_def Let_def
    by (auto simp: bind_err_eq_Inr split: if_splits)
  from z have "0 \<le> M" by (rule zeros_check_Inr)
  moreover have "M \<noteq> 0" using m by (auto simp: dof_numbering_empty)
  ultimately show "1 \<le> M" by simp
  show "stiffness_matrix s = einsum_qi_qj_q (nat (dof_count M d)) (Bprimeq s) (Bprimeq s) (JxWq s)"
    and "rhs s = einsum_qi_q_q (nat (dof_count M d)) (Bq s) (map forcing (Xq s)) (JxWq s)"
    and "P_table s = dof_numbering M d"
    by (simp_all add: s)
qed

lemma py_index_zero: "0 < n \<Longrightarrow> py_index n 0 = Inr 0"
  by (simp add: py_index_def)

lemma dirichlet_rows_eq:
  assumes "2 \<le> length A" "\<And>i. i < length A \<Longrightarrow> length (A ! i) = length A"
  shows "dirichlet_rows A
         = Inr (A[0 := unit_row (length A) 0, length A - 1 := unit_row (length A) (length A - 1)])"
proof -
  let ?N = "length A"
  let ?z = "replicate ?N (0::real)"
  have N: "0 < ?N" "?N - 1 < ?N" "0 \<noteq> ?N - 1" using assms(1) by auto
  have s1: "set_row A 0 0 = Inr (A[0 := ?z])"
    using N assms(2) [of 0] by (simp add: set_row_def py_index_zero)
  have s2: "set_row (A[0 := ?z]) (- 1) 0 = Inr (A[0 := ?z, ?N - 1 := ?z])"
    using N assms(2) [of "?N - 1"] by (simp add: set_row_def py_index_last)
  have s3: "set_entry (A[0 := ?z, ?N - 1 := ?z]) 0 0 1
            = Inr (A[0 := ?z, ?N - 1 := ?z, 0 := unit_row ?N 0])"
    using N by (simp add: set_entry_def py_index_zero unit_row_def)
  have s4: "set_entry (A[0 := ?z, ?N - 1 := ?z, 0 := unit_row ?N 0]) (- 1) (- 1) 1
            = Inr (A[0 := ?z, ?N - 1 := ?z, 0 := unit_row ?N 0, ?N - 1 := unit_row ?N (?N - 1)])"
    using N by (simp add: set_entry_def py_index_last unit_row_def)
  have s5: "A[0 := ?z, ?N - 1 := ?z, 0 := unit_row ?N 0, ?N - 1 := unit_row ?N (?N - 1)]
        = A[0 := unit_row ?N 0, ?N - 1 := unit_row ?N (?N - 1)]"
    using N by (intro nth_equalityI) (simp_all add: nth_list_update)
  show ?thesis
    unfolding dirichlet_rows_def by (simp only: s1 s2 s3 s4 s5 bind_err_Inr)
qed

lemma dirichlet_values_eq:
  assumes "2 \<le> length f"
  shows "dirichlet_values f ua ub = Inr (f[0 := ua, length f - 1 := ub])"
proof -
  have N: "0 < length f" using assms by auto
  then have "py_index (length f) 0 = Inr 0" "py_index (length f) (- 1) = Inr (length f - 1)"
    by (simp_all add: py_index_nonneg py_index_last)
  then show ?thesis by (simp add: dirichlet_values_def set_item_def)
qed

lemma length_einsum_qi_qj_q [simp]: "length (einsum_qi_qj_q N B C w) = N"
  by (simp add: einsum_qi_qj_q_def)

lemma length_einsum_qi_qj_q_row [simp]: "i < N \<Longrightarrow> length (einsum_qi_qj_q N B C w ! i) = N"
  by (simp add: einsum_qi_qj_q_def)

lemma length_einsum_qi_q_q [simp]: "length (einsum_qi_q_q N B g w) = N"
  by (simp add: einsum_qi_q_q_def)



lemma dof_count_ge2: "1 \<le> M \<Longrightarrow> 0 < d \<Longrightarrow> 2 \<le> nat (dof_count M d)"
proof -
  assume "1 \<le> M" "0 < d"
  then have "1 * 1 \<le> M * d" by (intro mult_mono) simp_all
  then show ?thesis by (simp add: dof_count_def)
qed

lemma fem_system_eq:
  assumes "fem_assemble M forcing d a b leggauss = Inr s0"
  shows "fem_system M exact forcing d a b leggauss
         = Inr (s0\<lparr> stiffness_matrix :=
                      (stiffness_matrix s0)[0 := unit_row (nat (dof_count M d)) 0,
                         nat (dof_count M d) - 1 := unit_row (nat (dof_count M d)) (nat (dof_count M d) - 1)],
                    rhs := (rhs s0)[0 := exact a, nat (dof_count M d) - 1 := exact b] \<rparr>)"
proof -
  let ?N = "nat (dof_count M d)"
  note D = fem_assemble_InrD [OF assms]
  have N: "2 \<le> ?N" using D(1,2) by (intro dof_count_ge2)
  have lenA: "length (stiffness_matrix s0) = ?N" and lenf: "length (rhs s0) = ?N"
    by (simp_all add: D)
  have rows: "\<And>i. i < length (stiffness_matrix s0) \<Longrightarrow> length (stiffness_matrix s0 ! i) = length (stiffness_matrix s0)"
    by (simp add: D)
  have "2 \<le> length (stiffness_matrix s0)" "2 \<le> length (rhs s0)" using N lenA lenf by simp_all
  then show ?thesis
    unfolding fem_system_def using dirichlet_rows_eq [OF _ rows] dirichlet_values_eq
    by (simp add: assms lenA lenf)
qed

lemmas fem_eval_defs =
  fem_def fem_solution_def fem_system_def fem_assemble_def Let_def dof_count_def linspace_def
  gauss_rule_def leggauss_3_def basis_table_def lagrange_basis_def lagrange_basis_derivative_def
  zeros_check_def dof_numbering_def dof_row_def mapping_def mapping_J_def element_block_def
  element_table_def py_index_def fdiv_def einsum_qi_qj_q_def einsum_qi_q_q_def einsum_q_q_def
  dirichlet_rows_def dirichlet_values_def set_row_def set_entry_def set_item_def
  candidate_solver_def mat_vec_def eval_nat_numeral upto.simps

lemma leggauss_3_shape:
  "length (fst (leggauss_3 (2 * 1 + 1))) = nat (2 * 1 + 1)"
  "length (snd (leggauss_3 (2 * 1 + 1))) = nat (2 * 1 + 1)"
  by (simp_all add: leggauss_3_def)

section \<open>The quadrature rule of \<open>fem\<close>\<close>




lemma gauss_rule_closed:
  assumes "leggauss n = (q0, w0)" "length q0 = nat n" "length w0 = nat n"
  shows "gauss_rule leggauss n = Inr (map (\<lambda>x. (x + 1) / 2) q0, map (\<lambda>x. x / 2) w0)"
  using assms by (simp add: gauss_rule_def)

text \<open>
  Whatever table of float64 numbers \<open>leggauss(3)\<close> returns, the rule that \<open>fem\<close> builds
  from it at degree 1 misses the integral of one of the monomials of degree at most 5.
\<close>

lemma float64_table_not_exact:
  assumes "leggauss 3 = (q0, w0)" and "length q0 = 3" and "length w0 = 3"
      and "\<forall>x \<in> set q0. fl64 x = x"
  shows "\<exists>q w k. gauss_rule leggauss 3 = Inr (q, w) \<and> k < 6
           \<and> quadrature_sum q w (\<lambda>x. x ^ k) \<noteq> 1 / real (k + 1)"
proof -
  let ?q = "map (\<lambda>x. (x + 1) / 2) q0" and ?w = "map (\<lambda>x. x / 2) w0"
  have rule: "gauss_rule leggauss 3 = Inr (?q, ?w)"
    using assms(1,2,3) by (intro gauss_rule_closed) simp_all
  have "\<exists>m e. ?q ! i = real_of_int m / 2 ^ e" if "i < 3" for i
  proof -
    from that assms(2) have "q0 ! i \<in> set q0" by simp
    with assms(4) have "fl64 (q0 ! i) = q0 ! i" by blast
    from fl64_grid [OF this] obtain m where m: "q0 ! i = real_of_int m * 2 powr (- 1074)" ..
    define P :: real where "P = 2 ^ 1074"
    have P: "0 < P" by (simp add: P_def)
    have p: "(2::real) powr (- 1074) = 1 / P"
      unfolding P_def by (simp only: powr_neg_numeral)
    have "real_of_int (m + 2 ^ 1074) = real_of_int m + P"
      unfolding P_def by (simp only: of_int_add of_int_power of_int_numeral)
    moreover have "(2::real) ^ Suc 1074 = 2 * P"
      unfolding P_def by (simp only: power_Suc)
    moreover have "(q0 ! i + 1) / 2 = (real_of_int m + P) / (2 * P)"
      unfolding m p using P by (simp add: field_simps)
    ultimately have "(q0 ! i + 1) / 2 = real_of_int (m + 2 ^ 1074) / 2 ^ Suc 1074"
      by (simp only:)
    moreover have "?q ! i = (q0 ! i + 1) / 2" using that assms(2) by (simp only: nth_map)
    ultimately have "?q ! i = real_of_int (m + 2 ^ 1074) / 2 ^ Suc 1074" by (simp only:)
    then show ?thesis by blast
  qed
  then have "\<exists>k<6. quadrature_sum ?q ?w (\<lambda>x. x ^ k) \<noteq> 1 / real (k + 1)"
    using assms(2) by (intro float_nodes_not_exact) simp_all
  with rule show ?thesis by blast
qed




section \<open>The boundary rows\<close>

text \<open>
  C4. Once the stiffness matrix and the right hand side are assembled (the two \<open>einsum\<close>
  contractions), \<open>fem\<close> replaces row 0 and row \<open>N-1\<close> of the matrix by the rows of the
  identity matrix (zeros, then a 1 on the diagonal), sets \<open>f[0] = exact(a)\<close> and
  \<open>f[N-1] = exact(b)\<close>, and leaves every other row of the matrix and every other entry
  of the right hand side as assembled.
\<close>

theorem boundary_rows_overwritten:
  assumes "fem_assemble M forcing d a b leggauss = Inr s0"
      and "N = nat (dof_count M d)"
  shows "\<exists>s. fem_system M exact forcing d a b leggauss = Inr s
           \<and> stiffness_matrix s0 = einsum_qi_qj_q N (Bprimeq s0) (Bprimeq s0) (JxWq s0)
           \<and> rhs s0 = einsum_qi_q_q N (Bq s0) (map forcing (Xq s0)) (JxWq s0)
           \<and> length (stiffness_matrix s) = N \<and> length (rhs s) = N
           \<and> stiffness_matrix s ! 0 = (replicate N 0)[0 := 1]
           \<and> stiffness_matrix s ! (N - 1) = (replicate N 0)[N - 1 := 1]
           \<and> rhs s ! 0 = exact a
           \<and> rhs s ! (N - 1) = exact b
           \<and> (\<forall>i. 0 < i \<and> i < N - 1 \<longrightarrow>
                 stiffness_matrix s ! i = stiffness_matrix s0 ! i \<and> rhs s ! i = rhs s0 ! i)"
proof -
  note D = fem_assemble_InrD [OF assms(1)]
  have N: "2 \<le> N" unfolding assms(2) using D(1,2) by (intro dof_count_ge2)
  have len: "length (stiffness_matrix s0) = N" "length (rhs s0) = N"
    by (simp_all add: D assms(2))
  have idx: "0 < N" "N - 1 < N" "0 \<noteq> N - 1" using N by auto
  show ?thesis
    using fem_system_eq [OF assms(1), of exact] D(3,4) len idx
    by (simp add: assms(2) [symmetric] unit_row_def)
qed

theorem boundary_rows_overwritten_witness:
  "\<exists>s0 s. fem_assemble 2 rhs_function 1 0 1 leggauss_3 = Inr s0
       \<and> (3::nat) = nat (dof_count 2 1)
       \<and> fem_system 2 exact_function rhs_function 1 0 1 leggauss_3 = Inr s
       \<and> stiffness_matrix s0 = [[2, - 2, 0], [- 2, 4, - 2], [0, - 2, 2]]
       \<and> stiffness_matrix s = [[1, 0, 0], [- 2, 4, - 2], [0, 0, 1]]
       \<and> rhs s ! 0 = exact_function 0 \<and> rhs s ! 1 = rhs s0 ! 1 \<and> rhs s ! 2 = exact_function 1"
proof -
  obtain s0 where s0: "fem_assemble 2 rhs_function 1 0 1 leggauss_3 = Inr s0"
    and A0: "stiffness_matrix s0 = [[2, - 2, 0], [- 2, 4, - 2], [0, - 2, 2]]"
    by (simp add: fem_eval_defs)
  have N: "(3::nat) = nat (dof_count 2 1)" by (simp add: dof_count_def)
  from boundary_rows_overwritten [OF s0 N, of exact_function]
  obtain s where s: "fem_system 2 exact_function rhs_function 1 0 1 leggauss_3 = Inr s"
    and len: "length (stiffness_matrix s) = 3"
    and r0: "stiffness_matrix s ! 0 = (replicate 3 0)[0 := 1]"
    and r2: "stiffness_matrix s ! (3 - 1) = (replicate 3 0)[3 - 1 := 1]"
    and f0: "rhs s ! 0 = exact_function 0" and f2: "rhs s ! (3 - 1) = exact_function 1"
    and rest: "\<forall>i. 0 < i \<and> i < (3::nat) - 1 \<longrightarrow>
                 stiffness_matrix s ! i = stiffness_matrix s0 ! i \<and> rhs s ! i = rhs s0 ! i"
    by blast
  from rest have r1: "stiffness_matrix s ! 1 = stiffness_matrix s0 ! 1" "rhs s ! 1 = rhs s0 ! 1"
    by simp_all
  have "stiffness_matrix s = [[1, 0, 0], [- 2, 4, - 2], [0, 0, 1]]"
    using len r0 r1 r2 A0 by (intro nth_equalityI) (auto simp: eval_nat_numeral less_Suc_eq)
  with s0 N s A0 f0 f2 r1 show ?thesis by auto
qed



lemma candidate_solver_sound:
  "candidate_solver u0 A f = Some u \<Longrightarrow> length u = length f \<and> mat_vec A u = f"
  by (simp add: candidate_solver_def split: if_splits)

lemma sum_list_unit_row:
  assumes "i < N"
  shows "(\<Sum>j\<leftarrow>[0..<N]. unit_row N i ! j * u ! j) = u ! i"
proof -
  have "(\<Sum>j\<leftarrow>[0..<N]. unit_row N i ! j * u ! j) = (\<Sum>j\<leftarrow>[0..<N]. if j = i then u ! j else 0)"
    by (intro arg_cong [where f = sum_list] map_cong) (auto simp: unit_row_def nth_list_update)
  also have "\<dots> = (\<Sum>j \<in> {0..<N}. if j = i then u ! j else 0)"
    by (simp add: interv_sum_list_conv_sum_set_nat)
  also have "\<dots> = u ! i" using assms by simp
  finally show ?thesis .
qed

text \<open>
  In exact arithmetic every vector that solves the final system has the boundary values
  \<open>exact(a)\<close> and \<open>exact(b)\<close> in its first and last entry, because rows \<open>0\<close> and
  \<open>N-1\<close> of the matrix are rows of the identity. \<open>fem\<close> does not store the boundary
  values into \<open>u\<close> after the solve, so for the vector that \<open>numpy.linalg.solve\<close>
  returns in float64, which solves the system up to rounding only, this says nothing.
\<close>

lemma exact_solution_boundary_values:
  assumes "1 \<le> M" and "1 \<le> d" and "a < b"
      and "length (fst (leggauss (2 * d + 1))) = nat (2 * d + 1)"
      and "length (snd (leggauss (2 * d + 1))) = nat (2 * d + 1)"
      and "\<And>A f u. solve A f = Some u \<Longrightarrow> length u = length f \<and> mat_vec A u = f"
      and "N = nat (dof_count M d)"
  shows "\<exists>s. fem_system M exact forcing d a b leggauss = Inr s
           \<and> (\<forall>u. solve (stiffness_matrix s) (rhs s) = Some u \<longrightarrow>
                 fem_solution M exact forcing d a b leggauss solve = Inr (s, u)
               \<and> length u = N \<and> u ! 0 = exact a \<and> u ! (N - 1) = exact b)"
proof -
  from assms(3) have "a \<noteq> b" by simp
  from fem_assemble_success [where leggauss = leggauss and d = d, OF assms(1,2) this assms(4,5)]
  obtain s0 where s0: "fem_assemble M forcing d a b leggauss = Inr s0" ..
  note D = fem_assemble_InrD [OF s0]
  let ?A = "(stiffness_matrix s0)[0 := unit_row N 0, N - 1 := unit_row N (N - 1)]"
  let ?f = "(rhs s0)[0 := exact a, N - 1 := exact b]"
  let ?s = "s0\<lparr> stiffness_matrix := ?A, rhs := ?f \<rparr>"
  have s: "fem_system M exact forcing d a b leggauss = Inr ?s"
    using fem_system_eq [OF s0, of exact] by (simp add: assms(7))
  have N: "2 \<le> N" unfolding assms(7) using D(1,2) by (intro dof_count_ge2)
  then have idx: "0 < N" "N - 1 < N" "0 \<noteq> N - 1" by auto
  have lenA: "length ?A = N" and lenf: "length ?f = N" by (simp_all add: D(3,4) assms(7))
  have "fem_solution M exact forcing d a b leggauss solve = Inr (?s, u)
        \<and> length u = N \<and> u ! 0 = exact a \<and> u ! (N - 1) = exact b"
    if "solve (stiffness_matrix ?s) (rhs ?s) = Some u" for u
  proof -
    from that have sol: "solve ?A ?f = Some u" by simp
    from assms(6) [OF sol] have lenu: "length u = N" and eq: "mat_vec ?A u = ?f"
      using lenf by simp_all
    have "mat_vec ?A u ! 0 = (\<Sum>j\<leftarrow>[0..<N]. unit_row N 0 ! j * u ! j)"
      using idx lenA lenu by (simp add: mat_vec_def nth_list_update)
    then have u0: "u ! 0 = exact a"
      using eq idx lenf by (simp add: sum_list_unit_row nth_list_update)
    have "mat_vec ?A u ! (N - 1) = (\<Sum>j\<leftarrow>[0..<N]. unit_row N (N - 1) ! j * u ! j)"
      using idx lenA lenu by (simp add: mat_vec_def)
    then have u1: "u ! (N - 1) = exact b"
      using eq idx lenf by (simp add: sum_list_unit_row)
    show ?thesis
      using sol lenu u0 u1 by (simp add: fem_solution_def s)
  qed
  with s show ?thesis by blast
qed

lemma exact_solution_boundary_values_example:
  "\<exists>s u. fem_solution 2 exact_linear rhs_zero 1 0 1 leggauss_3 (candidate_solver [0, 1 / 2, 1])
            = Inr (s, u)
       \<and> stiffness_matrix s = [[1, 0, 0], [- 2, 4, - 2], [0, 0, 1]]
       \<and> rhs s = [0, 0, 1]
       \<and> u = [0, 1 / 2, 1]
       \<and> u ! 0 = exact_linear 0 \<and> u ! 2 = exact_linear 1"
proof -
  let ?solve = "candidate_solver [0, 1 / 2, 1]"
  have N: "(3::nat) = nat (dof_count 2 1)" by (simp add: dof_count_def)
  have ab: "(0::real) < 1" by simp
  from exact_solution_boundary_values [where leggauss = leggauss_3 and d = 1 and M = 2
      and exact = exact_linear and forcing = rhs_zero and solve = ?solve,
      OF _ _ ab leggauss_3_shape candidate_solver_sound [of "[0, 1 / 2, 1]"] N]
  obtain s where s: "fem_system 2 exact_linear rhs_zero 1 0 1 leggauss_3 = Inr s"
    and sol: "\<forall>u. ?solve (stiffness_matrix s) (rhs s) = Some u \<longrightarrow>
                 fem_solution 2 exact_linear rhs_zero 1 0 1 leggauss_3 ?solve = Inr (s, u)
               \<and> length u = 3 \<and> u ! 0 = exact_linear 0 \<and> u ! (3 - 1) = exact_linear 1"
    by auto
  have A: "stiffness_matrix s = [[1, 0, 0], [- 2, 4, - 2], [0, 0, 1]]" and f: "rhs s = [0, 0, 1]"
    using s by (auto simp: fem_eval_defs exact_linear_def rhs_zero_def)
  then have "?solve (stiffness_matrix s) (rhs s) = Some [0, 1 / 2, 1]"
    by (simp add: candidate_solver_def mat_vec_def eval_nat_numeral)
  with sol A f show ?thesis by auto
qed

text \<open>
  An example of the whole routine: two linear elements on \<open>[0,1]\<close> reproduce the
  solution \<open>u(x) = x\<close> of \<open>-u'' = 0\<close>, and \<open>fem\<close> returns the error \<open>0\<close>.
\<close>

lemma fem_reproduces_linear_solution:
  "fem 2 exact_linear rhs_zero 1 0 1 leggauss_3 (candidate_solver [0, 1 / 2, 1]) = Inr 0"
  by (simp add: fem_eval_defs exact_linear_def rhs_zero_def) (simp add: field_simps)

section \<open>The errors of \<open>fem\<close>\<close>

lemma bind_err_eq_Inl:
  "bind_err m f = Inl e \<longleftrightarrow> m = Inl e \<or> (\<exists>x. m = Inr x \<and> f x = Inl e)"
  by (cases m) simp_all

lemma sequence_err_InlD: "sequence_err ms = Inl e \<Longrightarrow> \<exists>m \<in> set ms. m = Inl e"
  by (induction ms) (auto simp: bind_err_eq_Inl)

lemma sequence_err_map_InlD: "sequence_err (map g xs) = Inl e \<Longrightarrow> \<exists>x \<in> set xs. g x = Inl e"
  by (induction xs) (auto simp: bind_err_eq_Inl)

lemma linspace_InlD: "linspace s t n = Inl e \<Longrightarrow> e = ValueError"
  by (simp add: linspace_def Let_def split: if_splits)

lemma gauss_rule_InlD: "gauss_rule leggauss n = Inl e \<Longrightarrow> e = ValueError"
  by (simp add: gauss_rule_def split: if_splits prod.splits)

lemma zeros_check_InlD: "zeros_check ns = Inl e \<Longrightarrow> e = ValueError"
  by (simp add: zeros_check_def split: if_splits)

lemma array_max_InlD: "array_max xs = Inl e \<Longrightarrow> e = ValueError"
  by (cases xs) simp_all

lemma fdiv_InlD: "fdiv x y = Inl e \<Longrightarrow> e = NonFinite"
  by (simp add: fdiv_def split: if_splits)

lemma py_index_InlD: "py_index n i = Inl e \<Longrightarrow> e = IndexError"
  by (simp add: py_index_def split: if_splits)

lemma scatter_assign_InlD:
  "scatter_assign row ps vs = Inl e \<Longrightarrow> e = IndexError \<or> e = ValueError"
  by (induction row ps vs rule: scatter_assign.induct)
     (auto simp: bind_err_eq_Inl dest: py_index_InlD)

lemma element_table_InlD:
  "element_table nq N Pk VT = Inl e \<Longrightarrow> e = IndexError \<or> e = ValueError"
  unfolding element_table_def by (auto dest!: sequence_err_map_InlD scatter_assign_InlD)

lemma mapping_InlD:
  "mapping q i = Inl e \<Longrightarrow> e = AssertionError ''i < len(q)-1'' \<or> e = AssertionError ''i >= 0''"
  by (simp add: mapping_def split: if_splits)

lemma mapping_J_InlD:
  "mapping_J q i = Inl e \<Longrightarrow> e = AssertionError ''i < len(q)-1'' \<or> e = AssertionError ''i >= 0''"
  by (simp add: mapping_J_def split: if_splits)

lemma lagrange_basis_InlD:
  "lagrange_basis q i = Inl e \<Longrightarrow> e = AssertionError ''i < len(q)'' \<or> e = AssertionError ''i >= 0''"
  by (simp add: lagrange_basis_def split: if_splits)

lemma lagrange_basis_call_InlD:
  "lagrange_basis q i = Inr v \<Longrightarrow> v x = Inl e \<Longrightarrow> e = NonFinite"
  by (auto simp: lagrange_basis_def bind_err_eq_Inl split: if_splits
           dest!: sequence_err_map_InlD fdiv_InlD)

lemma lagrange_basis_derivative_InlD:
  "lagrange_basis_derivative q i = Inl e
     \<Longrightarrow> e = AssertionError ''i < len(q)'' \<or> e = AssertionError ''i >= 0''"
  by (auto simp: lagrange_basis_derivative_def bind_err_eq_Inl dest: lagrange_basis_InlD)

lemma lagrange_basis_derivative_call_InlD:
  "lagrange_basis_derivative q i = Inr v \<Longrightarrow> v x = Inl e \<Longrightarrow> e = NonFinite"
  by (auto simp: lagrange_basis_derivative_def bind_err_eq_Inr split: if_splits)

lemma basis_table_lagrange_InlD:
  "basis_table lagrange_basis rv d q = Inl e
     \<Longrightarrow> e = AssertionError ''i < len(q)'' \<or> e = AssertionError ''i >= 0'' \<or> e = NonFinite"
  unfolding basis_table_def
  by (auto simp: bind_err_eq_Inl dest!: sequence_err_map_InlD
           dest: lagrange_basis_InlD lagrange_basis_call_InlD)

lemma basis_table_lagrange_derivative_InlD:
  "basis_table lagrange_basis_derivative rv d q = Inl e
     \<Longrightarrow> e = AssertionError ''i < len(q)'' \<or> e = AssertionError ''i >= 0'' \<or> e = NonFinite"
  unfolding basis_table_def
  by (auto simp: bind_err_eq_Inl dest!: sequence_err_map_InlD
           dest: lagrange_basis_derivative_InlD lagrange_basis_derivative_call_InlD)

lemma element_block_InlD:
  "element_block nq N vertices P VqT VprimeqT k = Inl e
     \<Longrightarrow> e \<noteq> AssertionError ''degree > 0''"
  unfolding element_block_def
  by (auto simp: bind_err_eq_Inl dest!: sequence_err_map_InlD
           dest: element_table_InlD mapping_J_InlD fdiv_InlD)

lemma fem_assemble_InlD:
  assumes "fem_assemble M forcing d a b leggauss = Inl e" "0 < d"
  shows "e \<noteq> AssertionError ''degree > 0''"
  using assms unfolding fem_assemble_def Let_def
  by (auto simp: bind_err_eq_Inl split: if_splits dest!: sequence_err_map_InlD
           dest: linspace_InlD gauss_rule_InlD basis_table_lagrange_InlD
             basis_table_lagrange_derivative_InlD zeros_check_InlD array_max_InlD
             mapping_InlD mapping_J_InlD element_block_InlD)

lemma dirichlet_rows_InlD: "dirichlet_rows A = Inl e \<Longrightarrow> e = IndexError"
  unfolding dirichlet_rows_def set_row_def set_entry_def
  by (auto simp: bind_err_eq_Inl dest: py_index_InlD)

lemma dirichlet_values_InlD: "dirichlet_values f ua ub = Inl e \<Longrightarrow> e = IndexError"
  unfolding dirichlet_values_def set_item_def
  by (auto simp: bind_err_eq_Inl dest: py_index_InlD)

lemma fem_system_InlD:
  assumes "fem_system M exact forcing d a b leggauss = Inl e" "0 < d"
  shows "e \<noteq> AssertionError ''degree > 0''"
  using assms unfolding fem_system_def
  by (auto simp: bind_err_eq_Inl dest: fem_assemble_InlD dirichlet_rows_InlD dirichlet_values_InlD)

text \<open>
  C8. A call with \<open>degree < 1\<close> fails on the assertion \<open>degree > 0\<close>, the first
  statement of \<open>fem\<close>, whatever the other arguments are; for \<open>degree \<ge> 1\<close> that
  assertion never fails.
\<close>

theorem degree_check:
  "(degree < 1 \<longrightarrow>
      fem M exact forcing degree a b leggauss solve = Inl (AssertionError ''degree > 0''))
   \<and> (1 \<le> degree \<longrightarrow>
      fem M exact forcing degree a b leggauss solve \<noteq> Inl (AssertionError ''degree > 0''))"
proof (intro conjI impI)
  assume "degree < 1"
  then show "fem M exact forcing degree a b leggauss solve = Inl (AssertionError ''degree > 0'')"
    by (simp add: fem_def fem_solution_def fem_system_def fem_assemble_def)
next
  assume "1 \<le> degree"
  then have d: "0 < degree" by simp
  show "fem M exact forcing degree a b leggauss solve \<noteq> Inl (AssertionError ''degree > 0'')"
  proof
    assume "fem M exact forcing degree a b leggauss solve = Inl (AssertionError ''degree > 0'')"
    then have "fem_system M exact forcing degree a b leggauss = Inl (AssertionError ''degree > 0'')"
      unfolding fem_def fem_solution_def Let_def
      by (auto simp: bind_err_eq_Inl split: option.splits if_splits)
    from fem_system_InlD [OF this d] show False by simp
  qed
qed

theorem degree_check_witness:
  "fem 6 exact_function rhs_function 0 0 1 leggauss_3 (candidate_solver [])
     = Inl (AssertionError ''degree > 0'')
   \<and> fem 6 exact_function rhs_function 1 0 1 leggauss_3 (candidate_solver [])
     \<noteq> Inl (AssertionError ''degree > 0'')"
  using degree_check [of 0 6 exact_function rhs_function 0 1 leggauss_3 "candidate_solver []"]
        degree_check [of 1 6 exact_function rhs_function 0 1 leggauss_3 "candidate_solver []"]
  by simp

text \<open>
  C5, as the spec states it: a call with \<open>M < 1\<close> or \<open>a \<ge> b\<close> fails with an
  InvalidMesh error. \<open>fem\<close> has no such check: on \<open>[a,b] = [1,0]\<close> with one linear
  element it assembles, solves and returns the error \<open>0\<close> for the solution \<open>u(x) = x\<close>.
\<close>

theorem invalid_mesh_counterexample:
  "fem 1 exact_linear rhs_zero 1 1 0 leggauss_3 (candidate_solver [1, 0]) = Inr 0"
  by (simp add: fem_eval_defs exact_linear_def rhs_zero_def)

lemma fem_assemble_no_elements:
  assumes "1 \<le> d" "M < 1"
  shows "fem_assemble M forcing d a b leggauss = Inl ValueError"
proof -
  let ?rv = "samples 0 1 (Suc (nat d))"
  have d: "0 < d" using assms by simp
  have s1: "linspace 0 1 (d + 1) = Inr ?rv" using assms(1) by (rule ref_vertices_eq)
  show ?thesis
  proof (cases "M + 1 < 0")
    case True
    then have "linspace a b (M + 1) = Inl ValueError" by (simp add: linspace_def)
    with d s1 show ?thesis by (simp add: fem_assemble_def Let_def)
  next
    case False
    then have "0 \<le> M + 1" by simp
    then have s2: "linspace a b (M + 1) = Inr (samples a b (nat (M + 1)))" by (rule linspace_samples)
    show ?thesis
    proof (cases "gauss_rule leggauss (2 * d + 1)")
      case (Inl e)
      then have "e = ValueError" by (rule gauss_rule_InlD)
      with Inl d s1 s2 show ?thesis by (simp add: fem_assemble_def Let_def)
    next
      case (Inr qw)
      obtain q w where qw: "qw = (q, w)" by (cases qw)
      have s4: "basis_table lagrange_basis ?rv d q
                = Inr (map (\<lambda>i. map (lagrange_value ?rv i) q) [0..<nat (d + 1)])"
        using assms(1) by (rule basis_table_lagrange)
      have s5: "basis_table lagrange_basis_derivative ?rv d q
                = Inr (map (\<lambda>i. map (lagrange_slope ?rv i) q) [0..<nat (d + 1)])"
        using assms(1) by (rule basis_table_lagrange_derivative)
      show ?thesis
      proof (cases "M < 0")
        case True
        then have "zeros_check [M, 2 * d + 1, dof_count M d] = Inl ValueError"
          by (simp add: zeros_check_def)
        with d s1 s2 Inr qw s4 s5 show ?thesis by (simp add: fem_assemble_def Let_def)
      next
        case False
        with assms have M: "M = 0" by simp
        have z: "zeros_check [0, 2 * d + 1, dof_count 0 d] = Inr ()" "zeros_check [0, d + 1] = Inr ()"
          using d by (simp_all add: zeros_check_def dof_count_def)
        have "array_max (concat (dof_numbering 0 d)) = Inl ValueError"
          by (simp add: dof_numbering_empty)
        with d s1 s2 Inr qw s4 s5 z show ?thesis by (simp add: fem_assemble_def Let_def M)
      qed
    qed
  qed
qed

text \<open>
  C5, amended. \<open>fem\<close> does not validate the mesh. For \<open>degree \<ge> 1\<close>, a call with
  \<open>M < 1\<close> fails with numpy's ValueError (raised by \<open>linspace\<close>, by \<open>zeros\<close> or by
  \<open>P.max()\<close> on an empty table); a call with \<open>M \<ge> 1\<close> and \<open>a > b\<close> is not rejected:
  the linear system is assembled, its boundary rows are set and it is handed to the
  solver.
\<close>

theorem mesh_not_validated:
  assumes "1 \<le> d"
  shows "(M < 1 \<longrightarrow> fem M exact forcing d a b leggauss solve = Inl ValueError)
       \<and> (1 \<le> M \<and> b < a
            \<and> length (fst (leggauss (2 * d + 1))) = nat (2 * d + 1)
            \<and> length (snd (leggauss (2 * d + 1))) = nat (2 * d + 1)
          \<longrightarrow> (\<exists>s. fem_system M exact forcing d a b leggauss = Inr s))"
proof (intro conjI impI)
  assume "M < 1"
  with assms have "fem_assemble M forcing d a b leggauss = Inl ValueError"
    by (rule fem_assemble_no_elements)
  then show "fem M exact forcing d a b leggauss solve = Inl ValueError"
    by (simp add: fem_def fem_solution_def fem_system_def)
next
  assume h: "1 \<le> M \<and> b < a
            \<and> length (fst (leggauss (2 * d + 1))) = nat (2 * d + 1)
            \<and> length (snd (leggauss (2 * d + 1))) = nat (2 * d + 1)"
  then have "a \<noteq> b" by simp
  from fem_assemble_success [where leggauss = leggauss and d = d and M = M, OF _ assms this] h
  obtain s0 where "fem_assemble M forcing d a b leggauss = Inr s0" by blast
  from fem_system_eq [OF this, of exact]
  show "\<exists>s. fem_system M exact forcing d a b leggauss = Inr s" by blast
qed

theorem mesh_not_validated_witness:
  "fem 0 exact_function rhs_function 1 0 1 leggauss_3 (candidate_solver []) = Inl ValueError
   \<and> (\<exists>s. fem_system 1 exact_function rhs_function 1 1 0 leggauss_3 = Inr s
        \<and> stiffness_matrix s = [[1, 0], [0, 1]])"
proof -
  have d: "(1::int) \<le> 1" by simp
  have "fem 0 exact_function rhs_function 1 0 1 leggauss_3 (candidate_solver []) = Inl ValueError"
    using mesh_not_validated [OF d, of 0 exact_function rhs_function 0 1 leggauss_3 "candidate_solver []"]
    by simp
  moreover have "\<exists>s. fem_system 1 exact_function rhs_function 1 1 0 leggauss_3 = Inr s"
    using mesh_not_validated [OF d, of 1 exact_function rhs_function 1 0 leggauss_3 "candidate_solver []"]
    by (simp add: leggauss_3_def)
  then obtain s where s: "fem_system 1 exact_function rhs_function 1 1 0 leggauss_3 = Inr s" ..
  then have "stiffness_matrix s = [[1, 0], [0, 1]]" by (auto simp: fem_eval_defs)
  ultimately show ?thesis using s by blast
qed

end
